theory Spec2Isabelle
  imports Complex_Main
begin

section \<open>Python and numpy primitives used by \<^verbatim>\<open>project_version_8.py\<close>\<close>

text \<open>
  Exceptions are values. \<open>NoMoreDraws\<close> is not a Python exception: the random source is
  modelled as a finite tape of draws, and a call that asks for a draw on an empty tape
  has not returned within the tape.
\<close>

datatype error = IndexError | ValueError | ZeroDivisionError | NoMoreDraws

definition bindE :: "error + 'a \<Rightarrow> ('a \<Rightarrow> error + 'b) \<Rightarrow> error + 'b" where
  "bindE m f = (case m of Inl e \<Rightarrow> Inl e | Inr v \<Rightarrow> f v)"

text \<open>\<^verbatim>\<open>range(n)\<close>: the integers \<open>0, ..., n - 1\<close>, empty when \<open>n \<le> 0\<close>.\<close>

definition py_range :: "int \<Rightarrow> int list" where
  "py_range n = map int [0..<nat n]"

text \<open>A \<^verbatim>\<open>for\<close> loop over a list whose body may raise: the first exception ends it.\<close>

fun for_each :: "'a list \<Rightarrow> ('a \<Rightarrow> 's \<Rightarrow> error + 's) \<Rightarrow> 's \<Rightarrow> error + 's" where
  "for_each [] body s = Inr s"
| "for_each (x # xs) body s =
     (case body x s of Inl e \<Rightarrow> Inl e | Inr s' \<Rightarrow> for_each xs body s')"

text \<open>
  numpy indexing along an axis of length \<open>n\<close>: a negative index counts from the end,
  anything outside \<open>[-n, n)\<close> raises IndexError.
\<close>

definition np_index :: "nat \<Rightarrow> int \<Rightarrow> error + nat" where
  "np_index n i =
     (if 0 \<le> i \<and> i < int n then Inr (nat i)
      else if - int n \<le> i \<and> i < 0 then Inr (nat (i + int n))
      else Inl IndexError)"

text \<open>A one-dimensional array is a list, a two-dimensional array a list of rows.\<close>

type_synonym matrix = "real list list"

definition vec_get :: "'a list \<Rightarrow> int \<Rightarrow> error + 'a" where
  "vec_get xs i = bindE (np_index (length xs) i) (\<lambda>k. Inr (xs ! k))"

definition mat_get :: "matrix \<Rightarrow> int \<Rightarrow> int \<Rightarrow> error + real" where
  "mat_get s r c =
     bindE (np_index (length s) r) (\<lambda>i.
     bindE (np_index (length (s ! i)) c) (\<lambda>j. Inr (s ! i ! j)))"

text \<open>\<^verbatim>\<open>s[r, c] = f(s[r, c])\<close>, the shape of every in-place update of the source.\<close>

definition mat_modify :: "matrix \<Rightarrow> int \<Rightarrow> int \<Rightarrow> (real \<Rightarrow> real) \<Rightarrow> error + matrix" where
  "mat_modify s r c f =
     bindE (np_index (length s) r) (\<lambda>i.
     bindE (np_index (length (s ! i)) c) (\<lambda>j.
       Inr (s[i := (s ! i)[j := f (s ! i ! j)]])))"

subsection \<open>The random source\<close>

text \<open>
  The random source is a tape of natural numbers, threaded through every function that
  draws. \<^verbatim>\<open>np.random.randint(n)\<close> yields a value of \<open>[0, n)\<close> (ValueError when
  \<open>n \<le> 0\<close>); \<^verbatim>\<open>np.random.choice(xs)\<close> yields an element of \<open>xs\<close>. A draw \<open>d\<close> is
  reduced modulo the number of outcomes, so every outcome is reached by some tape.
\<close>

type_synonym tape = "nat list"

definition randint :: "int \<Rightarrow> tape \<Rightarrow> error + int \<times> tape" where
  "randint n ds =
     (if n \<le> 0 then Inl ValueError
      else case ds of [] \<Rightarrow> Inl NoMoreDraws | d # ds' \<Rightarrow> Inr (int d mod n, ds'))"

definition choice :: "'a list \<Rightarrow> tape \<Rightarrow> error + 'a \<times> tape" where
  "choice xs ds =
     (if xs = [] then Inl ValueError
      else case ds of [] \<Rightarrow> Inl NoMoreDraws | d # ds' \<Rightarrow> Inr (xs ! (d mod length xs), ds'))"

section \<open>Polarity markers\<close>

text \<open>
  \<^verbatim>\<open>configure_retinal_polarity_markers(XR, YR, default_polarity_markers)\<close>. In the random
  branch the source sets \<^verbatim>\<open>R_PM_y3 = R_PM_y1-1\<close> and \<^verbatim>\<open>R_PM_y4 = R_PM_y2-1\<close>.
\<close>

definition configure_retinal_polarity_markers ::
  "int \<Rightarrow> int \<Rightarrow> bool \<Rightarrow> tape \<Rightarrow> error + (int \<times> int \<times> int \<times> int) \<times> tape" where
  "configure_retinal_polarity_markers XR YR default_polarity_markers ds =
     (if default_polarity_markers then
        (let R_PM_y1 = 0; R_PM_x1 = 0; R_PM_y2 = 0; R_PM_x2 = 1;
             R_PM_y3 = 1; R_PM_x3 = 0; R_PM_y4 = 1; R_PM_x4 = 1
         in Inr ((R_PM_y1 * XR + R_PM_x1, R_PM_y2 * XR + R_PM_x2,
                  R_PM_y3 * XR + R_PM_x3, R_PM_y4 * XR + R_PM_x4), ds))
      else
        bindE (randint (YR - 1) ds) (\<lambda>(R_PM_y1, ds).
        bindE (randint (XR - 1) ds) (\<lambda>(R_PM_x1, ds).
          let R_PM_y2 = R_PM_y1; R_PM_x2 = R_PM_x1 + 1;
              R_PM_y3 = R_PM_y1 - 1; R_PM_y4 = R_PM_y2 - 1;
              R_PM_x3 = R_PM_x1; R_PM_x4 = R_PM_x2
          in Inr ((R_PM_y1 * XR + R_PM_x1, R_PM_y2 * XR + R_PM_x2,
                   R_PM_y3 * XR + R_PM_x3, R_PM_y4 * XR + R_PM_x4), ds))))"

text \<open>\<^verbatim>\<open>configure_tectal_polarity_markers(XT, YT, default_polarity_markers)\<close>: the same code
  on the tectal sheet.\<close>

definition configure_tectal_polarity_markers ::
  "int \<Rightarrow> int \<Rightarrow> bool \<Rightarrow> tape \<Rightarrow> error + (int \<times> int \<times> int \<times> int) \<times> tape" where
  "configure_tectal_polarity_markers XT YT default_polarity_markers ds =
     (if default_polarity_markers then
        (let T_PM_y1 = 0; T_PM_x1 = 0; T_PM_y2 = 0; T_PM_x2 = 1;
             T_PM_y3 = 1; T_PM_x3 = 0; T_PM_y4 = 1; T_PM_x4 = 1
         in Inr ((T_PM_y1 * XT + T_PM_x1, T_PM_y2 * XT + T_PM_x2,
                  T_PM_y3 * XT + T_PM_x3, T_PM_y4 * XT + T_PM_x4), ds))
      else
        bindE (randint (YT - 1) ds) (\<lambda>(T_PM_y1, ds).
        bindE (randint (XT - 1) ds) (\<lambda>(T_PM_x1, ds).
          let T_PM_y2 = T_PM_y1; T_PM_x2 = T_PM_x1 + 1;
              T_PM_y3 = T_PM_y1 - 1; T_PM_y4 = T_PM_y2 - 1;
              T_PM_x3 = T_PM_x1; T_PM_x4 = T_PM_x2
          in Inr ((T_PM_y1 * XT + T_PM_x1, T_PM_y2 * XT + T_PM_x2,
                   T_PM_y3 * XT + T_PM_x3, T_PM_y4 * XT + T_PM_x4), ds))))"

text \<open>\<^verbatim>\<open>increase_polarity_marker_synapse_strengths\<close>: four in-place products
  \<^verbatim>\<open>s[T_PMk, R_PMk] *= PM_strength_increase\<close>.\<close>

definition increase_polarity_marker_synapse_strengths ::
  "matrix \<Rightarrow> real \<Rightarrow> int \<Rightarrow> int \<Rightarrow> int \<Rightarrow> int \<Rightarrow> int \<Rightarrow> int \<Rightarrow> int \<Rightarrow> int \<Rightarrow> error + matrix" where
  "increase_polarity_marker_synapse_strengths s PM_strength_increase
       R_PM1 R_PM2 R_PM3 R_PM4 T_PM1 T_PM2 T_PM3 T_PM4 =
     bindE (mat_modify s T_PM1 R_PM1 (\<lambda>v. v * PM_strength_increase)) (\<lambda>s.
     bindE (mat_modify s T_PM2 R_PM2 (\<lambda>v. v * PM_strength_increase)) (\<lambda>s.
     bindE (mat_modify s T_PM3 R_PM3 (\<lambda>v. v * PM_strength_increase)) (\<lambda>s.
            mat_modify s T_PM4 R_PM4 (\<lambda>v. v * PM_strength_increase))))"

definition square_polarity_markers ::
  "matrix \<Rightarrow> bool \<Rightarrow> int \<Rightarrow> int \<Rightarrow> int \<Rightarrow> int \<Rightarrow> real \<Rightarrow> tape \<Rightarrow> error + matrix \<times> tape" where
  "square_polarity_markers s default_polarity_markers XR YR XT YT PM_strength_increase ds =
     bindE (configure_retinal_polarity_markers XR YR default_polarity_markers ds)
       (\<lambda>((R_PM1, R_PM2, R_PM3, R_PM4), ds).
     bindE (configure_tectal_polarity_markers XT YT default_polarity_markers ds)
       (\<lambda>((T_PM1, T_PM2, T_PM3, T_PM4), ds).
     bindE (increase_polarity_marker_synapse_strengths s PM_strength_increase
              R_PM1 R_PM2 R_PM3 R_PM4 T_PM1 T_PM2 T_PM3 T_PM4)
       (\<lambda>s. Inr (s, ds))))"

text \<open>
  \<^verbatim>\<open>graded_polarity_markers(s, XT, YT, XR, YR)\<close>. The body of the double loop, for
  retinal neuron \<open>i\<close> and tectal neuron \<open>j\<close>; \<^verbatim>\<open>//\<close> and \<^verbatim>\<open>%\<close> are floor division and
  its remainder, floats are reals. The source divides \<^verbatim>\<open>dist\<close> by
  \<^verbatim>\<open>INV_SQRT_2 = 1.0 / math.sqrt(2)\<close>.
\<close>

definition INV_SQRT_2 :: real where
  "INV_SQRT_2 = 1 / sqrt 2"

definition graded_dist :: "int \<Rightarrow> int \<Rightarrow> int \<Rightarrow> int \<Rightarrow> int \<Rightarrow> int \<Rightarrow> real" where
  "graded_dist XT YT XR YR i j =
     (let a = i div XR; b = i mod XR; c = j div XT; d = j mod XT;
          a = real_of_int a / real_of_int YR;
          b = real_of_int b / real_of_int XR;
          c = real_of_int c / real_of_int YT;
          d = real_of_int d / real_of_int XT;
          dist_squared = (a - c) * (a - c) + (b - d) * (b - d);
          dist = sqrt dist_squared;
          dist = dist / INV_SQRT_2
      in dist)"

definition graded_body :: "int \<Rightarrow> int \<Rightarrow> int \<Rightarrow> int \<Rightarrow> int \<Rightarrow> int \<Rightarrow> matrix \<Rightarrow> error + matrix" where
  "graded_body XT YT XR YR i j s =
     (let dist = graded_dist XT YT XR YR i j
      in if dist < 0.5 then mat_modify s j i (\<lambda>v. (-8 * dist + 5) * v) else Inr s)"

definition graded_polarity_markers :: "matrix \<Rightarrow> int \<Rightarrow> int \<Rightarrow> int \<Rightarrow> int \<Rightarrow> error + matrix" where
  "graded_polarity_markers s XT YT XR YR =
     for_each (py_range (XR * YR)) (\<lambda>i.
       for_each (py_range (XT * YT)) (\<lambda>j. graded_body XT YT XR YR i j)) s"

text \<open>
  \<^verbatim>\<open>implement_polarity_markers\<close>: an \<^verbatim>\<open>if\<close>/\<^verbatim>\<open>elif\<close> on the string \<^verbatim>\<open>PM_type\<close>
  with no \<^verbatim>\<open>else\<close>; falling off the end of a Python function returns \<^verbatim>\<open>None\<close>,
  here \<open>Inr (None, ds)\<close>.
\<close>

definition implement_polarity_markers ::
  "string \<Rightarrow> matrix \<Rightarrow> bool \<Rightarrow> int \<Rightarrow> int \<Rightarrow> int \<Rightarrow> int \<Rightarrow> real \<Rightarrow> tape
     \<Rightarrow> error + matrix option \<times> tape" where
  "implement_polarity_markers PM_type s default_polarity_markers XR YR XT YT
       PM_strength_increase ds =
     (if PM_type = ''square'' then
        bindE (square_polarity_markers s default_polarity_markers XR YR XT YT
                 PM_strength_increase ds) (\<lambda>(s, ds). Inr (Some s, ds))
      else if PM_type = ''graded'' then
        bindE (graded_polarity_markers s XT YT XR YR) (\<lambda>s. Inr (Some s, ds))
      else Inr (None, ds))"

section \<open>Retinal activation patterns\<close>

text \<open>
  The source generates a neighbour of the neuron at \<open>(y1, x1)\<close> with the same lines in
  \<^verbatim>\<open>retinal_neuron_pairs\<close> and twice in \<^verbatim>\<open>retinal_neuron_2_pairs\<close>:
  first \<^verbatim>\<open>y2\<close> by \<^verbatim>\<open>np.random.choice\<close> among the rows that exist, then \<^verbatim>\<open>x2\<close>, which
  moves only when the row did not.
\<close>

definition adjacent_neuron :: "int \<Rightarrow> int \<Rightarrow> int \<Rightarrow> int \<Rightarrow> tape \<Rightarrow> error + (int \<times> int) \<times> tape" where
  "adjacent_neuron XR YR y1 x1 ds =
     bindE (if y1 = 0 then choice [y1, y1 + 1] ds
            else if y1 = YR - 1 then choice [y1, y1 - 1] ds
            else choice [y1 - 1, y1, y1 + 1] ds) (\<lambda>(y2, ds).
     bindE (if y2 = y1 then
              (if x1 = 0 then Inr (x1 + 1, ds)
               else if x1 = XR - 1 then Inr (x1 - 1, ds)
               else choice [x1 - 1, x1 + 1] ds)
            else Inr (x1, ds)) (\<lambda>(x2, ds).
       Inr ((y2, x2), ds)))"

definition retinal_neuron_pairs :: "int \<Rightarrow> int \<Rightarrow> tape \<Rightarrow> error + int list \<times> tape" where
  "retinal_neuron_pairs XR YR ds =
     bindE (randint YR ds) (\<lambda>(y1, ds).
     bindE (randint XR ds) (\<lambda>(x1, ds).
     bindE (adjacent_neuron XR YR y1 x1 ds) (\<lambda>((y2, x2), ds).
       let RN1 = y1 * XR + x1; RN2 = y2 * XR + x2
       in Inr ([RN1, RN2], ds))))"

definition retinal_neuron_squares :: "int \<Rightarrow> int \<Rightarrow> tape \<Rightarrow> error + int list \<times> tape" where
  "retinal_neuron_squares XR YR ds =
     bindE (randint YR ds) (\<lambda>(y1, ds).
     bindE (randint XR ds) (\<lambda>(x1, ds).
     bindE (if y1 = 0 then Inr (1, ds)
            else if y1 = YR - 1 then Inr (YR - 2, ds)
            else choice [y1 - 1, y1 + 1] ds) (\<lambda>(y2, ds).
       let x2 = x1; y3 = y1 in
     bindE (if x1 = 0 then Inr (1, ds)
            else if x1 = XR - 1 then Inr (XR - 2, ds)
            else choice [x1 - 1, x1 + 1] ds) (\<lambda>(x3, ds).
       let y4 = y2; x4 = x3;
           RN1 = y1 * XR + x1; RN2 = y2 * XR + x2;
           RN3 = y3 * XR + x3; RN4 = y4 * XR + x4
       in Inr ([RN1, RN2, RN3, RN4], ds)))))"

text \<open>
  \<^verbatim>\<open>retinal_neuron_sweep(XR, YR, loop_count)\<close>. The source tests
  \<^verbatim>\<open>sweep_num < YR\<close> for a column and subtracts \<^verbatim>\<open>XR\<close> for a row. The arrays of the
  source hold floats with integer values; they are integers here.
\<close>

definition retinal_neuron_sweep :: "int \<Rightarrow> int \<Rightarrow> int \<Rightarrow> error + int list" where
  "retinal_neuron_sweep XR YR loop_count =
     (if YR + XR = 0 then Inl ZeroDivisionError
      else
        let sweep_num = loop_count mod (YR + XR) in
        if sweep_num < YR then
          (if YR < 0 then Inl ValueError
           else
             let x_array = map (\<lambda>_. sweep_num) (py_range YR);
                 y_array = py_range YR
             in Inr (map (\<lambda>i. y_array ! nat i * XR + x_array ! nat i) (py_range YR)))
        else
          (if XR < 0 then Inl ValueError
           else
             let x_array = py_range XR;
                 y_array = map (\<lambda>_. sweep_num - XR) (py_range XR)
             in Inr (map (\<lambda>i. y_array ! nat i * XR + x_array ! nat i) (py_range XR))))"

lemma randint_shorter: "randint n ds = Inr (v, ds') \<Longrightarrow> length ds' < length ds"
  by (auto simp: randint_def split: if_splits list.splits)

lemma choice_shorter: "choice xs ds = Inr (v, ds') \<Longrightarrow> length ds' < length ds"
  by (auto simp: choice_def split: if_splits list.splits)

lemma adjacent_neuron_shorter:
  "adjacent_neuron XR YR y x ds = Inr (v, ds') \<Longrightarrow> length ds' < length ds"
  by (auto simp: adjacent_neuron_def bindE_def split: if_splits sum.splits
           dest!: choice_shorter)

lemma bindE_cong [fundef_cong]:
  "m = m' \<Longrightarrow> (\<And>v. m' = Inr v \<Longrightarrow> f v = f' v) \<Longrightarrow> bindE m f = bindE m' f'"
  by (auto simp: bindE_def split: sum.splits)

text \<open>
  The rejection loops of \<^verbatim>\<open>retinal_neuron_2_pairs\<close>. Each starts with the loop variable
  equal to \<^verbatim>\<open>RN1\<close>, so the body runs at least once, and repeats while the neuron drawn
  is \<^verbatim>\<open>RN1\<close> or \<^verbatim>\<open>RN2\<close>. Every pass consumes draws, so on a finite tape they end.
\<close>

function RN3_loop :: "int \<Rightarrow> int \<Rightarrow> int \<Rightarrow> int \<Rightarrow> tape \<Rightarrow> error + (int \<times> int \<times> int) \<times> tape" where
  "RN3_loop XR YR RN1 RN2 ds =
     bindE (randint YR ds) (\<lambda>(y3, ds1).
     bindE (randint XR ds1) (\<lambda>(x3, ds2).
       let RN3 = y3 * XR + x3
       in if RN3 = RN1 \<or> RN3 = RN2 then RN3_loop XR YR RN1 RN2 ds2
          else Inr ((y3, x3, RN3), ds2)))"
  by pat_completeness auto
termination
proof (relation "measure (\<lambda>(XR, YR, RN1, RN2, ds). length ds)")
  fix XR YR RN1 RN2 :: int and ds :: tape and v y3 ds1 va x3 ds2 RN3
  assume "randint YR ds = Inr v" "(y3, ds1) = v" "randint XR ds1 = Inr va" "(x3, ds2) = va"
  then have "length ds1 < length ds" "length ds2 < length ds1"
    using randint_shorter by metis+
  then show "((XR, YR, RN1, RN2, ds2), XR, YR, RN1, RN2, ds)
       \<in> measure (\<lambda>(XR, YR, RN1, RN2, ds). length ds)"
    by simp
qed simp

function RN4_loop :: "int \<Rightarrow> int \<Rightarrow> int \<Rightarrow> int \<Rightarrow> int \<Rightarrow> int \<Rightarrow> tape \<Rightarrow> error + int \<times> tape" where
  "RN4_loop XR YR RN1 RN2 y3 x3 ds =
     bindE (adjacent_neuron XR YR y3 x3 ds) (\<lambda>(p, ds1).
       let y4 = fst p; x4 = snd p; RN4 = y4 * XR + x4
       in if RN4 = RN1 \<or> RN4 = RN2 then RN4_loop XR YR RN1 RN2 y3 x3 ds1
          else Inr (RN4, ds1))"
  by pat_completeness auto
termination
proof (relation "measure (\<lambda>(XR, YR, RN1, RN2, y3, x3, ds). length ds)")
  fix XR YR RN1 RN2 y3 x3 :: int and ds :: tape and v p ds1
  assume "adjacent_neuron XR YR y3 x3 ds = Inr v" "(p, ds1) = v"
  then have "length ds1 < length ds"
    using adjacent_neuron_shorter by metis
  then show "((XR, YR, RN1, RN2, y3, x3, ds1), XR, YR, RN1, RN2, y3, x3, ds)
       \<in> measure (\<lambda>(XR, YR, RN1, RN2, y3, x3, ds). length ds)"
    by simp
qed simp

definition retinal_neuron_2_pairs :: "int \<Rightarrow> int \<Rightarrow> tape \<Rightarrow> error + int list \<times> tape" where
  "retinal_neuron_2_pairs XR YR ds =
     bindE (randint YR ds) (\<lambda>(y1, ds).
     bindE (randint XR ds) (\<lambda>(x1, ds).
     bindE (adjacent_neuron XR YR y1 x1 ds) (\<lambda>((y2, x2), ds).
       let RN1 = y1 * XR + x1; RN2 = y2 * XR + x2 in
     bindE (RN3_loop XR YR RN1 RN2 ds) (\<lambda>((y3, x3, RN3), ds).
     bindE (RN4_loop XR YR RN1 RN2 y3 x3 ds) (\<lambda>(RN4, ds).
       Inr ([RN1, RN2, RN3, RN4], ds))))))"

definition retinal_neuron_singles :: "int \<Rightarrow> int \<Rightarrow> tape \<Rightarrow> error + int list \<times> tape" where
  "retinal_neuron_singles XR YR ds =
     bindE (randint YR ds) (\<lambda>(y1, ds).
     bindE (randint XR ds) (\<lambda>(x1, ds).
       let RN1 = y1 * XR + x1 in Inr ([RN1], ds)))"

definition retinal_neuron_strobe :: "int \<Rightarrow> int \<Rightarrow> int list" where
  "retinal_neuron_strobe XR YR = py_range (XR * YR)"

function RN2_loop :: "int \<Rightarrow> int \<Rightarrow> int \<Rightarrow> tape \<Rightarrow> error + int \<times> tape" where
  "RN2_loop XR YR RN1 ds =
     bindE (randint YR ds) (\<lambda>(y2, ds1).
     bindE (randint XR ds1) (\<lambda>(x2, ds2).
       let RN2 = y2 * XR + x2
       in if RN2 = RN1 then RN2_loop XR YR RN1 ds2 else Inr (RN2, ds2)))"
  by pat_completeness auto
termination
proof (relation "measure (\<lambda>(XR, YR, RN1, ds). length ds)")
  fix XR YR RN1 :: int and ds :: tape and v y2 ds1 va x2 ds2 RN2
  assume "randint YR ds = Inr v" "(y2, ds1) = v" "randint XR ds1 = Inr va" "(x2, ds2) = va"
  then have "length ds1 < length ds" "length ds2 < length ds1"
    using randint_shorter by metis+
  then show "((XR, YR, RN1, ds2), XR, YR, RN1, ds)
       \<in> measure (\<lambda>(XR, YR, RN1, ds). length ds)"
    by simp
qed simp

declare RN3_loop.simps [simp del] RN4_loop.simps [simp del] RN2_loop.simps [simp del]

definition retinal_neuron_2_singles :: "int \<Rightarrow> int \<Rightarrow> tape \<Rightarrow> error + int list \<times> tape" where
  "retinal_neuron_2_singles XR YR ds =
     bindE (randint YR ds) (\<lambda>(y1, ds).
     bindE (randint XR ds) (\<lambda>(x1, ds).
       let RN1 = y1 * XR + x1 in
     bindE (RN2_loop XR YR RN1 ds) (\<lambda>(RN2, ds).
       Inr ([RN1, RN2], ds))))"

text \<open>
  \<^verbatim>\<open>retinal_neuron_occular_dominance(XR, YR, loop_count)\<close>. The source passes
  \<^verbatim>\<open>XR/2\<close> and \<^verbatim>\<open>XR*YR/2\<close> to \<^verbatim>\<open>range\<close>, \<^verbatim>\<open>np.arange\<close> and \<^verbatim>\<open>np.zeros\<close>: \<^verbatim>\<open>/\<close>
  is the integer division of Python 2. \<^verbatim>\<open>np.repeat\<close>, \<^verbatim>\<open>np.tile\<close> and
  \<^verbatim>\<open>np.zeros\<close> raise ValueError on a negative count.
\<close>

definition np_repeat :: "'a list \<Rightarrow> int \<Rightarrow> error + 'a list" where
  "np_repeat xs n = (if n < 0 then Inl ValueError else Inr (concat (map (replicate (nat n)) xs)))"

definition np_tile :: "'a list \<Rightarrow> int \<Rightarrow> error + 'a list" where
  "np_tile xs n = (if n < 0 then Inl ValueError else Inr (concat (replicate (nat n) xs)))"

definition np_arange :: "int \<Rightarrow> int \<Rightarrow> int list" where
  "np_arange a b = map (\<lambda>k. a + k) (py_range (b - a))"

definition retinal_neuron_occular_dominance :: "int \<Rightarrow> int \<Rightarrow> int \<Rightarrow> error + int list" where
  "retinal_neuron_occular_dominance XR YR loop_count =
     bindE (np_repeat (np_arange 0 YR) (XR div 2)) (\<lambda>y_array.
     bindE (if loop_count mod 2 = 0 then np_tile (np_arange 0 (XR div 2)) YR
            else np_tile (np_arange (XR div 2) XR) YR) (\<lambda>x_array.
       if XR * YR div 2 < 0 then Inl ValueError
       else
         for_each (py_range (XR * YR div 2)) (\<lambda>i retinal_neurons.
           bindE (vec_get y_array i) (\<lambda>y.
           bindE (vec_get x_array i) (\<lambda>x.
             Inr (retinal_neurons[nat i := y * XR + x]))))
           (replicate (nat (XR * YR div 2)) 0)))"

text \<open>
  \<^verbatim>\<open>activate_retinal_neurons\<close>: an \<^verbatim>\<open>if\<close>/\<^verbatim>\<open>elif\<close> chain on the string
  \<^verbatim>\<open>activity_pattern\<close> with no \<^verbatim>\<open>else\<close>; falling off the end returns \<^verbatim>\<open>None\<close>,
  here \<open>Inr (None, ds)\<close>.
\<close>

definition returned :: "error + 'a \<times> tape \<Rightarrow> error + 'a option \<times> tape" where
  "returned m = bindE m (\<lambda>(v, ds). Inr (Some v, ds))"

definition activate_retinal_neurons ::
  "string \<Rightarrow> int \<Rightarrow> int \<Rightarrow> int \<Rightarrow> tape \<Rightarrow> error + int list option \<times> tape" where
  "activate_retinal_neurons activity_pattern XR YR loop_count ds =
     (if activity_pattern = ''pairs'' then returned (retinal_neuron_pairs XR YR ds)
      else if activity_pattern = ''squares'' then returned (retinal_neuron_squares XR YR ds)
      else if activity_pattern = ''sweep'' then
        returned (bindE (retinal_neuron_sweep XR YR loop_count) (\<lambda>rn. Inr (rn, ds)))
      else if activity_pattern = ''2_pairs'' then returned (retinal_neuron_2_pairs XR YR ds)
      else if activity_pattern = ''singles'' then returned (retinal_neuron_singles XR YR ds)
      else if activity_pattern = ''strobe'' then Inr (Some (retinal_neuron_strobe XR YR), ds)
      else if activity_pattern = ''2_singles'' then returned (retinal_neuron_2_singles XR YR ds)
      else if activity_pattern = ''occular_dominance'' then
        returned (bindE (retinal_neuron_occular_dominance XR YR loop_count) (\<lambda>rn. Inr (rn, ds)))
      else Inr (None, ds))"

section \<open>Relaxation convergence test\<close>

text \<open>
  \<^verbatim>\<open>convergence(mean_new_H_grid, mean_H_grid)\<close>:
  \<^verbatim>\<open>return np.abs((mean_new_H_grid - mean_H_grid)) < (0.005 * mean_H_grid)\<close>.
\<close>

definition convergence :: "real \<Rightarrow> real \<Rightarrow> bool" where
  "convergence mean_new_H_grid mean_H_grid =
     (\<bar>mean_new_H_grid - mean_H_grid\<bar> < 0.005 * mean_H_grid)"

section \<open>Thresholding and the plasticity update\<close>

text \<open>
  \<^verbatim>\<open>threshold(H_grid, theta, XT, YT)\<close>: a copy of the grid in which every cell of the
  first \<open>YT\<close> rows and \<open>XT\<close> columns above \<open>theta\<close> is lowered by \<open>theta\<close> and every
  other such cell is set to 0.
\<close>

definition threshold :: "matrix \<Rightarrow> real \<Rightarrow> int \<Rightarrow> int \<Rightarrow> error + matrix" where
  "threshold H_grid theta XT YT =
     for_each (py_range YT) (\<lambda>j.
       for_each (py_range XT) (\<lambda>i H_star.
         bindE (mat_get H_star j i) (\<lambda>v.
           if v > theta then mat_modify H_star j i (\<lambda>v. v - theta)
           else mat_modify H_star j i (\<lambda>v. 0)))) H_grid"



text \<open>The value \<^verbatim>\<open>threshold\<close> leaves in a cell that held \<open>v\<close>.\<close>

definition thr :: "real \<Rightarrow> real \<Rightarrow> real" where
  "thr theta v = (if v > theta then v - theta else 0)"

section \<open>Tectal relaxation\<close>

text \<open>
  The 7 by 7 array \<^verbatim>\<open>tectal_modifiers\<close> of \<^verbatim>\<open>tectal_interactions\<close>: \<open>beta\<close> at
  Manhattan distance 1 from the centre, \<open>gamma\<close> at 2, \<open>delta\<close> at 3.
\<close>

definition tectal_modifiers :: "real \<Rightarrow> real \<Rightarrow> real \<Rightarrow> matrix" where
  "tectal_modifiers beta gamma delta =
     [[0, 0, 0, delta, 0, 0, 0],
      [0, 0, delta, gamma, delta, 0, 0],
      [0, delta, gamma, beta, gamma, delta, 0],
      [delta, gamma, beta, 0, beta, gamma, delta],
      [0, delta, gamma, beta, gamma, delta, 0],
      [0, 0, delta, gamma, delta, 0, 0],
      [0, 0, 0, delta, 0, 0, 0]]"

text \<open>
  \<^verbatim>\<open>scipy.signal.convolve2d(a, k, mode='same', boundary='fill', fillvalue=0)\<close>: the
  output has the shape of \<open>a\<close>; its cell \<open>(r, c)\<close> is the sum over the cells \<open>(u, v)\<close>
  of \<open>k\<close> of \<open>k[u, v] * a[r + cu - u, c + cv - v]\<close>, where \<open>(cu, cv)\<close> is the centre of
  \<open>k\<close> and a cell outside \<open>a\<close> counts as 0.
\<close>

definition fill_cell :: "matrix \<Rightarrow> int \<Rightarrow> int \<Rightarrow> real" where
  "fill_cell a r c =
     (if 0 \<le> r \<and> r < int (length a) \<and> 0 \<le> c \<and> c < int (length (a ! nat r))
      then a ! nat r ! nat c else 0)"

definition convolve2d_same :: "matrix \<Rightarrow> matrix \<Rightarrow> matrix" where
  "convolve2d_same a k =
     map (\<lambda>r. map (\<lambda>c.
            sum_list (map (\<lambda>u. sum_list (map (\<lambda>v.
              k ! u ! v * fill_cell a (int r + int ((length k - 1) div 2) - int u)
                                      (int c + int ((length (k ! u) - 1) div 2) - int v))
              [0..<length (k ! u)])) [0..<length k]))
          [0..<length (a ! r)]) [0..<length a]"

text \<open>
  Elementwise sum of two arrays of one shape, and the product with a scalar. Every array
  of the loop has the shape of \<^verbatim>\<open>H_grid_initial\<close>.
\<close>

definition mat_add :: "matrix \<Rightarrow> matrix \<Rightarrow> matrix" where
  "mat_add a b = map2 (map2 (+)) a b"

definition mat_scale :: "real \<Rightarrow> matrix \<Rightarrow> matrix" where
  "mat_scale c a = map (map (\<lambda>v. c * v)) a"

text \<open>
  \<^verbatim>\<open>np.mean\<close> of a grid. On a grid without cells numpy returns nan, here \<open>None\<close>;
  every comparison with nan is false, so \<^verbatim>\<open>convergence\<close> then answers \<^verbatim>\<open>False\<close>.
\<close>

definition np_mean :: "matrix \<Rightarrow> real option" where
  "np_mean a =
     (if concat a = [] then None
      else Some (sum_list (concat a) / real (length (concat a))))"

definition convergence_of_means :: "real option \<Rightarrow> real option \<Rightarrow> bool" where
  "convergence_of_means mean_new_H_grid mean_H_grid =
     (case (mean_new_H_grid, mean_H_grid) of
        (Some m', Some m) \<Rightarrow> convergence m' m
      | _ \<Rightarrow> False)"

text \<open>
  One pass through the body of the \<^verbatim>\<open>while\<close> loop of \<^verbatim>\<open>tectal_interactions\<close>, up to
  \<^verbatim>\<open>new_H_grid\<close>: threshold, \<^verbatim>\<open>dH_dt\<close> from the retinal drive, the lateral
  interactions and the membrane decay, and the step of size \<open>dt\<close>.
\<close>

definition relax_step ::
  "matrix \<Rightarrow> int \<Rightarrow> int \<Rightarrow> real \<Rightarrow> matrix \<Rightarrow> real \<Rightarrow> real \<Rightarrow> matrix \<Rightarrow> error + matrix" where
  "relax_step H_grid_initial XT YT dt modifiers alpha theta H_grid =
     bindE (threshold H_grid theta XT YT) (\<lambda>H_star.
       let dH_dt = H_grid_initial;
           dH_dt = mat_add dH_dt (convolve2d_same H_star modifiers);
           dH_dt = mat_add dH_dt (mat_scale alpha H_grid);
           H_grid = mat_add H_grid (mat_scale dt dH_dt);
           new_H_grid = H_grid
       in Inr new_H_grid)"

text \<open>
  The \<^verbatim>\<open>while not converged\<close> loop. The result \<open>None\<close> stands for a loop that never
  ends. Under \<^verbatim>\<open>verbose\<close> the source runs \<^verbatim>\<open>n_loops =+ 1\<close>, which assigns \<open>+1\<close>, and
  then leaves the loop when \<^verbatim>\<open>n_loops > 20\<close>.
\<close>

partial_function (option) relax_loop ::
  "matrix \<Rightarrow> int \<Rightarrow> int \<Rightarrow> real \<Rightarrow> matrix \<Rightarrow> real \<Rightarrow> real \<Rightarrow> bool \<Rightarrow> int \<Rightarrow> matrix
     \<Rightarrow> (error + matrix) option" where
  "relax_loop H_grid_initial XT YT dt modifiers alpha theta verbose n_loops H_grid =
     (case relax_step H_grid_initial XT YT dt modifiers alpha theta H_grid of
        Inl e \<Rightarrow> Some (Inl e)
      | Inr new_H_grid \<Rightarrow>
          let mean_H_grid = np_mean H_grid;
              mean_new_H_grid = np_mean new_H_grid;
              converged = convergence_of_means mean_new_H_grid mean_H_grid;
              n_loops = (if verbose then 1 else n_loops)
          in if verbose \<and> n_loops > 20 then Some (Inr new_H_grid)
             else if converged then Some (Inr new_H_grid)
             else relax_loop H_grid_initial XT YT dt modifiers alpha theta verbose
                    n_loops new_H_grid)"

text \<open>
  \<^verbatim>\<open>tectal_interactions\<close>. Before the loop, \<^verbatim>\<open>np.zeros((YT, XT))\<close> raises ValueError
  on a negative dimension.
\<close>

definition tectal_interactions ::
  "matrix \<Rightarrow> int \<Rightarrow> int \<Rightarrow> real \<Rightarrow> real \<Rightarrow> real \<Rightarrow> real \<Rightarrow> real \<Rightarrow> real \<Rightarrow> bool
     \<Rightarrow> (error + matrix) option" where
  "tectal_interactions H_grid_initial XT YT dt beta gamma delta alpha theta verbose =
     (if YT < 0 \<or> XT < 0 then Some (Inl ValueError)
      else relax_loop H_grid_initial XT YT dt (tectal_modifiers beta gamma delta) alpha theta
             verbose 0 H_grid_initial)"

text \<open>
  The grid after \<open>n\<close> passes through the body of the loop, started at \<open>H_grid\<close>; the
  first pass that raises ends the run.
\<close>

fun relax_iterate ::
  "nat \<Rightarrow> matrix \<Rightarrow> int \<Rightarrow> int \<Rightarrow> real \<Rightarrow> matrix \<Rightarrow> real \<Rightarrow> real \<Rightarrow> matrix \<Rightarrow> error + matrix" where
  "relax_iterate 0 H_grid_initial XT YT dt modifiers alpha theta H_grid = Inr H_grid"
| "relax_iterate (Suc n) H_grid_initial XT YT dt modifiers alpha theta H_grid =
     bindE (relax_step H_grid_initial XT YT dt modifiers alpha theta H_grid)
       (relax_iterate n H_grid_initial XT YT dt modifiers alpha theta)"

section \<open>Map metrics\<close>

text \<open>
  \<^verbatim>\<open>np.linspace(start, stop, num)\<close>: \<open>num\<close> evenly spaced values from \<open>start\<close> to
  \<open>stop\<close> inclusive, \<open>start + i * (stop - start) / (num - 1)\<close>; the single value
  \<open>start\<close> when \<open>num = 1\<close>, ValueError when \<open>num < 0\<close>.
\<close>

definition np_linspace :: "real \<Rightarrow> real \<Rightarrow> int \<Rightarrow> error + real list" where
  "np_linspace start stop num =
     (if num < 0 then Inl ValueError
      else if num = 1 then Inr [start]
      else Inr (map (\<lambda>i. start + real_of_int i * ((stop - start) / real_of_int (num - 1)))
                 (py_range num)))"

text \<open>
  \<^verbatim>\<open>quality(XT, YT, XR, YR, COM_X, COM_Y)\<close>. \<^verbatim>\<open>math.sqrt\<close> raises ValueError on a
  negative argument; dividing a Python float by zero raises ZeroDivisionError.
\<close>

definition quality :: "int \<Rightarrow> int \<Rightarrow> int \<Rightarrow> int \<Rightarrow> real list \<Rightarrow> real list \<Rightarrow> error + real" where
  "quality XT YT XR YR COM_X COM_Y =
     bindE (np_linspace 0 (real_of_int (XR - 1)) XT) (\<lambda>linspace_x.
     bindE (np_tile linspace_x YT) (\<lambda>perfect_x.
     bindE (np_linspace 0 (real_of_int (YR - 1)) YT) (\<lambda>linspace_y.
     bindE (np_repeat linspace_y XT) (\<lambda>perfect_y.
       if XR + YR < 0 then Inl ValueError
       else
         let max_disp = sqrt (real_of_int (XR + YR)) in
     bindE (for_each (py_range (XT * YT)) (\<lambda>i q.
              bindE (vec_get COM_X i) (\<lambda>cx.
              bindE (vec_get perfect_x i) (\<lambda>px.
              bindE (vec_get COM_Y i) (\<lambda>cy.
              bindE (vec_get perfect_y i) (\<lambda>py.
                let disp_squared = (cx - px) * (cx - px) + (cy - py) * (cy - py);
                    disp = sqrt disp_squared
                in if max_disp = 0 then Inl ZeroDivisionError
                   else let disp = disp / max_disp in Inr (q + disp))))))
              0) (\<lambda>q.
       if XT * YT = 0 then Inl ZeroDivisionError
       else let q = q / real_of_int (XT * YT); q = 1 - q in Inr q)))))"

section \<open>Lemmas on the random source and the activation patterns\<close>

lemma randint_Inr:
  "randint n ds = Inr (v, ds') \<Longrightarrow> 0 \<le> v \<and> v < n \<and> (\<exists>d. ds = d # ds')"
  by (auto simp: randint_def split: if_splits list.splits)

lemma choice_Inr:
  "choice xs ds = Inr (v, ds') \<Longrightarrow> v \<in> set xs \<and> (\<exists>d. ds = d # ds')"
  by (auto simp: choice_def split: if_splits list.splits)

lemma randint_Cons: "0 < n \<Longrightarrow> randint n (d # ds) = Inr (int d mod n, ds)"
  by (simp add: randint_def)

lemma choice_Cons: "xs \<noteq> [] \<Longrightarrow> choice xs (d # ds) = Inr (xs ! (d mod length xs), ds)"
  by (simp add: choice_def)

lemma index_bounds:
  fixes x y XR YR :: int
  assumes "0 \<le> y" "y < YR" "0 \<le> x" "x < XR"
  shows "0 \<le> y * XR + x \<and> y * XR + x < XR * YR"
proof -
  have "y * XR \<le> (YR - 1) * XR"
    using assms by (intro mult_right_mono) auto
  then have "y * XR + x < (YR - 1) * XR + XR" using assms by linarith
  moreover have "(YR - 1) * XR + XR = XR * YR" by (simp add: algebra_simps)
  moreover have "0 \<le> y * XR" using assms by simp
  ultimately show ?thesis using assms by simp
qed

lemma index_inj:
  fixes x y x' y' XR :: int
  assumes "0 \<le> x" "x < XR" "0 \<le> x'" "x' < XR" "y * XR + x = y' * XR + x'"
  shows "y = y' \<and> x = x'"
proof -
  have "(x + y * XR) div XR = y" "(x' + y' * XR) div XR = y'"
    using assms by (simp_all add: div_pos_pos_trivial)
  moreover have "x + y * XR = x' + y' * XR" using assms by simp
  ultimately have "y = y'" by simp
  then show ?thesis using assms by simp
qed

lemma adjacent_neuron_Inr:
  assumes "2 \<le> XR" "2 \<le> YR" "0 \<le> y1" "y1 < YR" "0 \<le> x1" "x1 < XR"
    and "adjacent_neuron XR YR y1 x1 ds = Inr ((y2, x2), ds')"
  shows "0 \<le> y2 \<and> y2 < YR \<and> 0 \<le> x2 \<and> x2 < XR \<and>
         ((y2 = y1 \<and> \<bar>x2 - x1\<bar> = 1) \<or> (x2 = x1 \<and> \<bar>y2 - y1\<bar> = 1))"
  using assms
  by (auto simp: adjacent_neuron_def bindE_def split: if_splits sum.splits dest!: choice_Inr)

lemma adjacent_neuron_error:
  assumes "adjacent_neuron XR YR y1 x1 ds = Inl e"
  shows "e = NoMoreDraws \<and> length ds < 2"
  using assms
  by (auto simp: adjacent_neuron_def bindE_def choice_def split: if_splits sum.splits list.splits)


lemma bindE_Inr: "bindE m f = Inr r \<longleftrightarrow> (\<exists>v. m = Inr v \<and> f v = Inr r)"
  by (cases m) (auto simp: bindE_def)

lemma bindE_Inl: "bindE m f = Inl e \<longleftrightarrow> (m = Inl e \<or> (\<exists>v. m = Inr v \<and> f v = Inl e))"
  by (cases m) (auto simp: bindE_def)

lemma neighbour_index:
  fixes XR YR :: int
  assumes "0 \<le> y1" "y1 < YR" "0 \<le> x1" "x1 < XR"
    and "0 \<le> y2" "y2 < YR" "0 \<le> x2" "x2 < XR"
    and "y2 \<noteq> y1 \<or> x2 \<noteq> x1"
  shows "y1 * XR + x1 \<noteq> y2 * XR + x2"
  using assms index_inj[of x1 XR x2 y1 y2] by auto

lemma retinal_neuron_pairs_Inr:
  assumes "2 \<le> XR" "2 \<le> YR" "retinal_neuron_pairs XR YR ds = Inr (rn, ds')"
  shows "length rn = 2 \<and> distinct rn \<and> (\<forall>r\<in>set rn. 0 \<le> r \<and> r < XR * YR)"
proof -
  from assms(3) obtain y1 x1 y2 x2 ds1 ds2 where
    y1: "randint YR ds = Inr (y1, ds1)" and x1: "randint XR ds1 = Inr (x1, ds2)"
    and adj: "adjacent_neuron XR YR y1 x1 ds2 = Inr ((y2, x2), ds')"
    and rn: "rn = [y1 * XR + x1, y2 * XR + x2]"
    by (auto simp: retinal_neuron_pairs_def bindE_Inr Let_def)
  have r1: "0 \<le> y1" "y1 < YR" "0 \<le> x1" "x1 < XR"
    using randint_Inr[OF y1] randint_Inr[OF x1] by auto
  note a = adjacent_neuron_Inr[OF assms(1,2) r1 adj]
  have "y1 * XR + x1 \<noteq> y2 * XR + x2"
    using neighbour_index[of y1 YR x1 XR y2 x2] r1 a by auto
  moreover have "0 \<le> y1 * XR + x1 \<and> y1 * XR + x1 < XR * YR"
    using index_bounds r1 by blast
  moreover have "0 \<le> y2 * XR + x2 \<and> y2 * XR + x2 < XR * YR"
    using index_bounds a by blast
  ultimately show ?thesis by (simp add: rn)
qed

lemma adjacent_neuron_returns:
  assumes "2 \<le> length ds"
  shows "\<exists>p ds'. adjacent_neuron XR YR y1 x1 ds = Inr (p, ds')"
proof -
  obtain d1 d2 ds2 where "ds = d1 # d2 # ds2"
    using assms by (cases ds; cases "tl ds") auto
  then show ?thesis
    by (auto simp: adjacent_neuron_def bindE_def choice_def)
qed

lemma retinal_neuron_pairs_returns:
  assumes "2 \<le> XR" "2 \<le> YR" "4 \<le> length ds"
  shows "\<exists>rn ds'. retinal_neuron_pairs XR YR ds = Inr (rn, ds')"
proof -
  obtain d1 d2 ds2 where ds: "ds = d1 # d2 # ds2" and l: "2 \<le> length ds2"
    using assms(3) by (cases ds; cases "tl ds") auto
  obtain p ds' where "adjacent_neuron XR YR (int d1 mod YR) (int d2 mod XR) ds2 = Inr (p, ds')"
    using adjacent_neuron_returns[OF l] by blast
  then show ?thesis using assms(1,2)
    by (cases p) (simp add: retinal_neuron_pairs_def ds randint_def bindE_def Let_def)
qed

lemma retinal_neuron_squares_Inr:
  assumes "2 \<le> XR" "2 \<le> YR" "retinal_neuron_squares XR YR ds = Inr (rn, ds')"
  shows "length rn = 4 \<and> distinct rn \<and> (\<forall>r\<in>set rn. 0 \<le> r \<and> r < XR * YR)"
proof -
  from assms(3) obtain y1 x1 y2 x3 ds1 ds2 ds3 where
    y1: "randint YR ds = Inr (y1, ds1)" and x1: "randint XR ds1 = Inr (x1, ds2)"
    and y2: "(if y1 = 0 then Inr (1, ds2) else if y1 = YR - 1 then Inr (YR - 2, ds2)
              else choice [y1 - 1, y1 + 1] ds2) = Inr (y2, ds3)"
    and x3: "(if x1 = 0 then Inr (1, ds3) else if x1 = XR - 1 then Inr (XR - 2, ds3)
              else choice [x1 - 1, x1 + 1] ds3) = Inr (x3, ds')"
    and rn: "rn = [y1 * XR + x1, y2 * XR + x1, y1 * XR + x3, y2 * XR + x3]"
    by (auto simp: retinal_neuron_squares_def bindE_Inr Let_def split del: if_split)
  have r1: "0 \<le> y1" "y1 < YR" "0 \<le> x1" "x1 < XR"
    using randint_Inr[OF y1] randint_Inr[OF x1] by auto
  have r2: "0 \<le> y2" "y2 < YR" "y2 \<noteq> y1"
    using y2 r1 assms(2) by (auto split: if_splits dest!: choice_Inr)
  have r3: "0 \<le> x3" "x3 < XR" "x3 \<noteq> x1"
    using x3 r1 assms(1) by (auto split: if_splits dest!: choice_Inr)
  have d: "y1 * XR + x1 \<noteq> y2 * XR + x1" "y1 * XR + x1 \<noteq> y1 * XR + x3"
    "y1 * XR + x1 \<noteq> y2 * XR + x3" "y2 * XR + x1 \<noteq> y1 * XR + x3"
    "y2 * XR + x1 \<noteq> y2 * XR + x3" "y1 * XR + x3 \<noteq> y2 * XR + x3"
    using r1 r2 r3 by (simp_all add: neighbour_index[where YR = YR])
  have b: "0 \<le> y1 * XR + x1 \<and> y1 * XR + x1 < XR * YR"
    "0 \<le> y2 * XR + x1 \<and> y2 * XR + x1 < XR * YR"
    "0 \<le> y1 * XR + x3 \<and> y1 * XR + x3 < XR * YR"
    "0 \<le> y2 * XR + x3 \<and> y2 * XR + x3 < XR * YR"
    using r1 r2 r3 by (simp_all only: index_bounds)
  show ?thesis using d b by (simp add: rn)
qed

lemma retinal_neuron_squares_returns:
  assumes "2 \<le> XR" "2 \<le> YR" "4 \<le> length ds"
  shows "\<exists>rn ds'. retinal_neuron_squares XR YR ds = Inr (rn, ds')"
proof -
  obtain d1 d2 d3 d4 ds4 where ds: "ds = d1 # d2 # d3 # d4 # ds4"
    using assms(3) by (cases ds; cases "tl ds"; cases "tl (tl ds)"; cases "tl (tl (tl ds))") auto
  show ?thesis using assms(1,2)
    by (simp add: retinal_neuron_squares_def ds randint_def choice_def bindE_def Let_def)
qed

lemma RN3_loop_Inr:
  "RN3_loop XR YR RN1 RN2 ds = Inr ((y3, x3, RN3), ds') \<Longrightarrow>
     0 \<le> y3 \<and> y3 < YR \<and> 0 \<le> x3 \<and> x3 < XR \<and> RN3 = y3 * XR + x3 \<and> RN3 \<noteq> RN1 \<and> RN3 \<noteq> RN2"
proof (induction XR YR RN1 RN2 ds rule: RN3_loop.induct)
  case (1 XR YR RN1 RN2 ds)
  note u = "1.prems"[unfolded RN3_loop.simps[of XR YR RN1 RN2 ds]]
  from u obtain y ds1 x ds2 where
    y: "randint YR ds = Inr (y, ds1)" and x: "randint XR ds1 = Inr (x, ds2)"
    and r: "(if y * XR + x = RN1 \<or> y * XR + x = RN2 then RN3_loop XR YR RN1 RN2 ds2
             else Inr ((y, x, y * XR + x), ds2)) = Inr ((y3, x3, RN3), ds')"
    by (auto simp: bindE_Inr Let_def split del: if_split)
  show ?case
  proof (cases "y * XR + x = RN1 \<or> y * XR + x = RN2")
    case True
    then have "RN3_loop XR YR RN1 RN2 ds2 = Inr ((y3, x3, RN3), ds')" using r by simp
    then show ?thesis using "1.IH"[OF y refl x refl refl True] by simp
  next
    case False
    then show ?thesis using r randint_Inr[OF y] randint_Inr[OF x] by auto
  qed
qed

lemma RN4_loop_Inr:
  assumes "2 \<le> XR" "2 \<le> YR" "0 \<le> y3" "y3 < YR" "0 \<le> x3" "x3 < XR"
  shows "RN4_loop XR YR RN1 RN2 y3 x3 ds = Inr (RN4, ds') \<Longrightarrow>
     RN4 \<noteq> RN1 \<and> RN4 \<noteq> RN2 \<and> RN4 \<noteq> y3 * XR + x3 \<and> 0 \<le> RN4 \<and> RN4 < XR * YR"
  using assms
proof (induction XR YR RN1 RN2 y3 x3 ds rule: RN4_loop.induct)
  case (1 XR YR RN1 RN2 y3 x3 ds)
  note u = "1.prems"(1)[unfolded RN4_loop.simps[of XR YR RN1 RN2 y3 x3 ds]]
  from u obtain y4 x4 ds1 where
    a: "adjacent_neuron XR YR y3 x3 ds = Inr ((y4, x4), ds1)"
    and r: "(if y4 * XR + x4 = RN1 \<or> y4 * XR + x4 = RN2 then RN4_loop XR YR RN1 RN2 y3 x3 ds1
             else Inr (y4 * XR + x4, ds1)) = Inr (RN4, ds')"
    by (auto simp: bindE_Inr Let_def split del: if_split cong del: if_weak_cong)
  show ?case
  proof (cases "y4 * XR + x4 = RN1 \<or> y4 * XR + x4 = RN2")
    case True
    then have "RN4_loop XR YR RN1 RN2 y3 x3 ds1 = Inr (RN4, ds')" using r by simp
    then show ?thesis using "1.IH"[OF a refl refl refl refl] True "1.prems" by simp
  next
    case False
    note n = adjacent_neuron_Inr[OF "1.prems"(2-7) a]
    have "y3 * XR + x3 \<noteq> y4 * XR + x4"
      using neighbour_index[of y3 YR x3 XR y4 x4] "1.prems" n by auto
    moreover have "0 \<le> y4 * XR + x4 \<and> y4 * XR + x4 < XR * YR"
      using index_bounds n by blast
    ultimately show ?thesis using False r by auto
  qed
qed

lemma retinal_neuron_2_pairs_Inr:
  assumes "2 \<le> XR" "2 \<le> YR" "retinal_neuron_2_pairs XR YR ds = Inr (rn, ds')"
  shows "length rn = 4 \<and> distinct rn \<and> (\<forall>r\<in>set rn. 0 \<le> r \<and> r < XR * YR)"
proof -
  from assms(3) obtain y1 x1 y2 x2 y3 x3 RN3 RN4 ds1 ds2 ds3 ds4 where
    y1: "randint YR ds = Inr (y1, ds1)" and x1: "randint XR ds1 = Inr (x1, ds2)"
    and adj: "adjacent_neuron XR YR y1 x1 ds2 = Inr ((y2, x2), ds3)"
    and l3: "RN3_loop XR YR (y1 * XR + x1) (y2 * XR + x2) ds3 = Inr ((y3, x3, RN3), ds4)"
    and l4: "RN4_loop XR YR (y1 * XR + x1) (y2 * XR + x2) y3 x3 ds4 = Inr (RN4, ds')"
    and rn: "rn = [y1 * XR + x1, y2 * XR + x2, RN3, RN4]"
    by (auto simp: retinal_neuron_2_pairs_def bindE_Inr Let_def)
  have r1: "0 \<le> y1" "y1 < YR" "0 \<le> x1" "x1 < XR"
    using randint_Inr[OF y1] randint_Inr[OF x1] by auto
  note a = adjacent_neuron_Inr[OF assms(1,2) r1 adj]
  have d12: "y1 * XR + x1 \<noteq> y2 * XR + x2"
    using neighbour_index[of y1 YR x1 XR y2 x2] r1 a by auto
  have b1: "0 \<le> y1 * XR + x1 \<and> y1 * XR + x1 < XR * YR"
    using index_bounds r1 by blast
  have b2: "0 \<le> y2 * XR + x2 \<and> y2 * XR + x2 < XR * YR"
    using index_bounds a by blast
  note r3 = RN3_loop_Inr[OF l3]
  have b3: "0 \<le> RN3 \<and> RN3 < XR * YR"
    using index_bounds[of y3 YR x3 XR] r3 by simp
  have r4: "RN4 \<noteq> y1 * XR + x1 \<and> RN4 \<noteq> y2 * XR + x2 \<and> RN4 \<noteq> y3 * XR + x3
      \<and> 0 \<le> RN4 \<and> RN4 < XR * YR"
    using RN4_loop_Inr[OF assms(1,2) _ _ _ _ l4] r3 by simp
  show ?thesis using d12 b1 b2 b3 r3 r4 by (auto simp: rn)
qed

lemma randint_append:
  "randint n ds = Inr (v, ds') \<Longrightarrow> randint n (ds @ e) = Inr (v, ds' @ e)"
  by (auto simp: randint_def split: if_splits list.splits)

lemma choice_append:
  "choice xs ds = Inr (v, ds') \<Longrightarrow> choice xs (ds @ e) = Inr (v, ds' @ e)"
  by (auto simp: choice_def split: if_splits list.splits)

lemma adjacent_neuron_append:
  assumes "adjacent_neuron XR YR y1 x1 ds = Inr (p, ds')"
  shows "adjacent_neuron XR YR y1 x1 (ds @ e) = Inr (p, ds' @ e)"
proof -
  from assms obtain y2 ds1 x2 where
    y: "(if y1 = 0 then choice [y1, y1 + 1] ds
         else if y1 = YR - 1 then choice [y1, y1 - 1] ds
         else choice [y1 - 1, y1, y1 + 1] ds) = Inr (y2, ds1)"
    and x: "(if y2 = y1 then
              (if x1 = 0 then Inr (x1 + 1, ds1)
               else if x1 = XR - 1 then Inr (x1 - 1, ds1)
               else choice [x1 - 1, x1 + 1] ds1)
            else Inr (x1, ds1)) = Inr (x2, ds')"
    and p: "p = (y2, x2)"
    by (auto simp: adjacent_neuron_def bindE_Inr split del: if_split)
  have y': "(if y1 = 0 then choice [y1, y1 + 1] (ds @ e)
         else if y1 = YR - 1 then choice [y1, y1 - 1] (ds @ e)
         else choice [y1 - 1, y1, y1 + 1] (ds @ e)) = Inr (y2, ds1 @ e)"
    using y by (auto split: if_splits intro: choice_append)
  have x': "(if y2 = y1 then
              (if x1 = 0 then Inr (x1 + 1, ds1 @ e)
               else if x1 = XR - 1 then Inr (x1 - 1, ds1 @ e)
               else choice [x1 - 1, x1 + 1] (ds1 @ e))
            else Inr (x1, ds1 @ e)) = Inr (x2, ds' @ e)"
    using x by (auto split: if_splits intro: choice_append)
  show ?thesis
    unfolding adjacent_neuron_def by (simp only: y' bindE_def sum.case prod.case x' p)
qed

lemma RN3_loop_append:
  "RN3_loop XR YR RN1 RN2 ds = Inr (r, ds') \<Longrightarrow>
   RN3_loop XR YR RN1 RN2 (ds @ e) = Inr (r, ds' @ e)"
proof (induction XR YR RN1 RN2 ds rule: RN3_loop.induct)
  case (1 XR YR RN1 RN2 ds)
  note u = "1.prems"[unfolded RN3_loop.simps[of XR YR RN1 RN2 ds]]
  from u obtain y ds1 x ds2 where
    y: "randint YR ds = Inr (y, ds1)" and x: "randint XR ds1 = Inr (x, ds2)"
    and r: "(if y * XR + x = RN1 \<or> y * XR + x = RN2 then RN3_loop XR YR RN1 RN2 ds2
             else Inr ((y, x, y * XR + x), ds2)) = Inr (r, ds')"
    by (auto simp: bindE_Inr Let_def split del: if_split)
  have "RN3_loop XR YR RN1 RN2 (ds @ e) =
      (if y * XR + x = RN1 \<or> y * XR + x = RN2 then RN3_loop XR YR RN1 RN2 (ds2 @ e)
             else Inr ((y, x, y * XR + x), ds2 @ e))"
    by (subst RN3_loop.simps)
       (simp add: randint_append[OF y] randint_append[OF x] bindE_def Let_def)
  also have "\<dots> = Inr (r, ds' @ e)"
  proof (cases "y * XR + x = RN1 \<or> y * XR + x = RN2")
    case True
    then have "RN3_loop XR YR RN1 RN2 ds2 = Inr (r, ds')" using r by simp
    then show ?thesis using "1.IH"[OF y refl x refl refl True] True by simp
  next
    case False
    then show ?thesis using r by auto
  qed
  finally show ?case .
qed

lemma RN3_loop_Cons2:
  assumes "0 < XR" "0 < YR"
  shows "RN3_loop XR YR RN1 RN2 (a # b # ds) =
     (if int a mod YR * XR + int b mod XR = RN1 \<or> int a mod YR * XR + int b mod XR = RN2
      then RN3_loop XR YR RN1 RN2 ds
      else Inr ((int a mod YR, int b mod XR, int a mod YR * XR + int b mod XR), ds))"
  using assms by (subst RN3_loop.simps) (simp add: randint_def bindE_def Let_def)

lemma RN3_loop_accept:
  assumes "2 \<le> XR" "2 \<le> YR"
  shows "\<exists>a b. \<forall>e. \<exists>r. RN3_loop XR YR RN1 RN2 (a # b # e) = Inr (r, e)"
proof -
  have pos: "0 < XR" "0 < YR" using assms by auto
  have m: "int 0 mod YR = 0" "int 1 mod YR = 1" "int 0 mod XR = 0" "int 1 mod XR = 1"
    using assms by auto
  consider "0 \<noteq> RN1 \<and> 0 \<noteq> RN2" | "1 \<noteq> RN1 \<and> 1 \<noteq> RN2" | "XR \<noteq> RN1 \<and> XR \<noteq> RN2"
    using assms(1) by linarith
  then show ?thesis
  proof cases
    case 1
    then have "\<forall>e. \<exists>r. RN3_loop XR YR RN1 RN2 (0 # 0 # e) = Inr (r, e)"
      by (simp add: RN3_loop_Cons2[OF pos])
    then show ?thesis by blast
  next
    case 2
    then have "\<forall>e. \<exists>r. RN3_loop XR YR RN1 RN2 (0 # 1 # e) = Inr (r, e)"
      using m by (simp add: RN3_loop_Cons2[OF pos])
    then show ?thesis by blast
  next
    case 3
    then have "\<forall>e. \<exists>r. RN3_loop XR YR RN1 RN2 (1 # 0 # e) = Inr (r, e)"
      using m by (simp add: RN3_loop_Cons2[OF pos])
    then show ?thesis by blast
  qed
qed

lemma RN3_loop_live:
  assumes "2 \<le> XR" "2 \<le> YR"
  shows "\<exists>e r ds'. RN3_loop XR YR RN1 RN2 (ds @ e) = Inr (r, ds')"
proof (induction ds rule: induct_list012)
  case 1
  from RN3_loop_accept[OF assms] obtain a b where
    "\<forall>e. \<exists>r. RN3_loop XR YR RN1 RN2 (a # b # e) = Inr (r, e)" by blast
  then have "\<exists>r. RN3_loop XR YR RN1 RN2 ([] @ [a, b]) = Inr (r, [])" by simp
  then show ?case by blast
next
  case (2 x)
  have pos: "0 < XR" "0 < YR" using assms by auto
  from RN3_loop_accept[OF assms] obtain a b where
    acc: "\<forall>e. \<exists>r. RN3_loop XR YR RN1 RN2 (a # b # e) = Inr (r, e)" by blast
  then obtain r where r: "RN3_loop XR YR RN1 RN2 [a, b] = Inr (r, [])" by blast
  have "\<exists>r ds'. RN3_loop XR YR RN1 RN2 (x # 0 # [a, b]) = Inr (r, ds')"
    unfolding RN3_loop_Cons2[OF pos, of _ _ x 0] using r by (cases r) auto
  then have "\<exists>r ds'. RN3_loop XR YR RN1 RN2 ([x] @ [0, a, b]) = Inr (r, ds')"
    by simp
  then show ?case by blast
next
  case (3 x y zs)
  have pos: "0 < XR" "0 < YR" using assms by auto
  from 3(1) obtain e r ds' where "RN3_loop XR YR RN1 RN2 (zs @ e) = Inr (r, ds')" by blast
  then have "\<exists>r ds'. RN3_loop XR YR RN1 RN2 ((x # y # zs) @ e) = Inr (r, ds')"
    by (cases r) (auto simp: RN3_loop_Cons2[OF pos])
  then show ?case by blast
qed

lemma adjacent_neuron_vertical:
  assumes "2 \<le> YR" "0 \<le> y3" "y3 < YR"
  shows "\<exists>d y4. y4 \<noteq> y3 \<and> 0 \<le> y4 \<and> y4 < YR \<and>
           (\<forall>e. adjacent_neuron XR YR y3 x3 (d # e) = Inr ((y4, x3), e))"
proof -
  consider "y3 = 0" | "y3 \<noteq> 0" "y3 = YR - 1" | "y3 \<noteq> 0" "y3 \<noteq> YR - 1" by blast
  then show ?thesis
  proof cases
    case 1
    then have "\<forall>e. adjacent_neuron XR YR y3 x3 (1 # e) = Inr ((1, x3), e)"
      by (simp add: adjacent_neuron_def choice_def bindE_def)
    then show ?thesis using 1 assms by (intro exI[of _ 1] exI[of _ 1]) simp
  next
    case 2
    then have "\<forall>e. adjacent_neuron XR YR y3 x3 (1 # e) = Inr ((y3 - 1, x3), e)"
      by (simp add: adjacent_neuron_def choice_def bindE_def)
    then show ?thesis using 2 assms by (intro exI[of _ 1] exI[of _ "y3 - 1"]) simp
  next
    case 3
    then have "\<forall>e. adjacent_neuron XR YR y3 x3 (0 # e) = Inr ((y3 - 1, x3), e)"
      by (simp add: adjacent_neuron_def choice_def bindE_def)
    then show ?thesis using 3 assms by (intro exI[of _ 0] exI[of _ "y3 - 1"]) simp
  qed
qed

lemma adjacent_neuron_horizontal:
  assumes "2 \<le> XR" "0 \<le> x3" "x3 < XR"
  shows "\<exists>d x4. x4 \<noteq> x3 \<and> 0 \<le> x4 \<and> x4 < XR \<and>
           (\<forall>e. \<exists>rest. adjacent_neuron XR YR y3 x3 (d # 0 # e) = Inr ((y3, x4), rest))"
proof -
  obtain d where d: "\<And>ds. (if y3 = 0 then choice [y3, y3 + 1] (d # ds)
            else if y3 = YR - 1 then choice [y3, y3 - 1] (d # ds)
            else choice [y3 - 1, y3, y3 + 1] (d # ds)) = Inr (y3, ds)"
  proof (cases "y3 = 0 \<or> y3 = YR - 1")
    case True
    then have "\<And>ds. (if y3 = 0 then choice [y3, y3 + 1] (0 # ds)
            else if y3 = YR - 1 then choice [y3, y3 - 1] (0 # ds)
            else choice [y3 - 1, y3, y3 + 1] (0 # ds)) = Inr (y3, ds)"
      by (auto simp: choice_def)
    then show ?thesis using that by blast
  next
    case False
    then have "\<And>ds. (if y3 = 0 then choice [y3, y3 + 1] (1 # ds)
            else if y3 = YR - 1 then choice [y3, y3 - 1] (1 # ds)
            else choice [y3 - 1, y3, y3 + 1] (1 # ds)) = Inr (y3, ds)"
      by (auto simp: choice_def)
    then show ?thesis using that by blast
  qed
  have a: "adjacent_neuron XR YR y3 x3 (d # ds) =
      bindE (if x3 = 0 then Inr (x3 + 1, ds)
               else if x3 = XR - 1 then Inr (x3 - 1, ds)
               else choice [x3 - 1, x3 + 1] ds) (\<lambda>(x2, ds). Inr ((y3, x2), ds))" for ds
    unfolding adjacent_neuron_def by (simp only: d bindE_def sum.case prod.case) simp
  consider "x3 = 0" | "x3 \<noteq> 0"  by blast
  then show ?thesis
  proof cases
    case 1
    have "\<forall>e. \<exists>rest. adjacent_neuron XR YR y3 x3 (d # 0 # e) = Inr ((y3, 1), rest)"
      unfolding a using 1 by (simp add: bindE_def)
    then show ?thesis using 1 assms by (intro exI[of _ d] exI[of _ 1]) simp
  next
    case 2
    have "\<forall>e. \<exists>rest. adjacent_neuron XR YR y3 x3 (d # 0 # e) = Inr ((y3, x3 - 1), rest)"
      unfolding a using 2 by (simp add: bindE_def choice_def)
    then show ?thesis using 2 assms by (intro exI[of _ d] exI[of _ "x3 - 1"]) simp
  qed
qed

lemma adjacent_neuron_complete:
  assumes "2 \<le> YR" "0 \<le> y3" "y3 < YR" "adjacent_neuron XR YR y3 x3 ds = Inl err"
  shows "\<exists>e1 p. \<forall>e'. adjacent_neuron XR YR y3 x3 (ds @ e1 @ e') = Inr (p, e')"
proof (cases ds)
  case Nil
  from adjacent_neuron_vertical[OF assms(1-3)] obtain d y4 where
    "\<forall>e. adjacent_neuron XR YR y3 x3 (d # e) = Inr ((y4, x3), e)" by blast
  then have "\<forall>e'. adjacent_neuron XR YR y3 x3 (ds @ [d] @ e') = Inr ((y4, x3), e')"
    using Nil by simp
  then show ?thesis by blast
next
  case (Cons d ds')
  then have ds: "ds = [d]" using adjacent_neuron_error[OF assms(4)] by (cases ds') auto
  have "\<forall>e'. adjacent_neuron XR YR y3 x3 (d # 0 # e') = Inr ((y3, x3 - 1), e')"
    using assms(4) unfolding ds
    by (auto simp: adjacent_neuron_def bindE_def choice_def split: if_splits)
  then have "\<forall>e'. adjacent_neuron XR YR y3 x3 (ds @ [0] @ e') = Inr ((y3, x3 - 1), e')"
    using ds by simp
  then show ?thesis by blast
qed

lemma RN4_loop_step:
  assumes "adjacent_neuron XR YR y3 x3 ds = Inr ((y4, x4), ds1)"
  shows "RN4_loop XR YR RN1 RN2 y3 x3 ds =
     (if y4 * XR + x4 = RN1 \<or> y4 * XR + x4 = RN2 then RN4_loop XR YR RN1 RN2 y3 x3 ds1
      else Inr (y4 * XR + x4, ds1))"
  by (subst RN4_loop.simps) (simp add: assms bindE_def Let_def)

lemma RN4_loop_accept:
  assumes "2 \<le> XR" "2 \<le> YR"
    and r3: "0 \<le> y3" "y3 < YR" "0 \<le> x3" "x3 < XR"
    and r1: "0 \<le> y1" "y1 < YR" "0 \<le> x1" "x1 < XR"
    and r2: "0 \<le> y2" "y2 < YR" "0 \<le> x2" "x2 < XR"
    and adj: "(y2 = y1 \<and> x2 \<noteq> x1) \<or> (x2 = x1 \<and> y2 \<noteq> y1)"
  shows "\<exists>acc. \<forall>e. \<exists>r rest.
           RN4_loop XR YR (y1 * XR + x1) (y2 * XR + x2) y3 x3 (acc @ e) = Inr (r, rest)"
proof -
  from adjacent_neuron_vertical[OF assms(2) r3(1,2)] obtain dV y4 where
    V: "y4 \<noteq> y3" "0 \<le> y4" "y4 < YR"
       "\<And>e. adjacent_neuron XR YR y3 x3 (dV # e) = Inr ((y4, x3), e)" by blast
  from adjacent_neuron_horizontal[OF assms(1) r3(3,4)] obtain dH x4 where
    H: "x4 \<noteq> x3" "0 \<le> x4" "x4 < XR"
       "\<And>e. \<exists>rest. adjacent_neuron XR YR y3 x3 (dH # 0 # e) = Inr ((y3, x4), rest)" by blast
  have V1: "y4 * XR + x3 = y1 * XR + x1 \<Longrightarrow> y4 = y1 \<and> x3 = x1"
    using index_inj[of x3 XR x1 y4 y1] r3 r1 by simp
  have V2: "y4 * XR + x3 = y2 * XR + x2 \<Longrightarrow> y4 = y2 \<and> x3 = x2"
    using index_inj[of x3 XR x2 y4 y2] r3 r2 by simp
  have H1: "y3 * XR + x4 = y1 * XR + x1 \<Longrightarrow> y3 = y1 \<and> x4 = x1"
    using index_inj[of x4 XR x1 y3 y1] H r1 by simp
  have H2: "y3 * XR + x4 = y2 * XR + x2 \<Longrightarrow> y3 = y2 \<and> x4 = x2"
    using index_inj[of x4 XR x2 y3 y2] H r2 by simp
  consider
      (vert) "y4 * XR + x3 \<noteq> y1 * XR + x1" "y4 * XR + x3 \<noteq> y2 * XR + x2"
    | (horiz) "y3 * XR + x4 \<noteq> y1 * XR + x1" "y3 * XR + x4 \<noteq> y2 * XR + x2"
    using V1 V2 H1 H2 V(1) H(1) adj by metis
  then show ?thesis
  proof cases
    case vert
    have "\<forall>e. \<exists>r rest.
        RN4_loop XR YR (y1 * XR + x1) (y2 * XR + x2) y3 x3 ([dV] @ e) = Inr (r, rest)"
      using vert by (simp add: RN4_loop_step[OF V(4)])
    then show ?thesis by blast
  next
    case horiz
    have "\<exists>r rest.
        RN4_loop XR YR (y1 * XR + x1) (y2 * XR + x2) y3 x3 ([dH, 0] @ e) = Inr (r, rest)" for e
    proof -
      obtain rest where "adjacent_neuron XR YR y3 x3 (dH # 0 # e) = Inr ((y3, x4), rest)"
        using H(4) by blast
      then show ?thesis using horiz by (simp add: RN4_loop_step)
    qed
    then show ?thesis by blast
  qed
qed

lemma RN4_loop_live:
  assumes "2 \<le> XR" "2 \<le> YR"
    and r3: "0 \<le> y3" "y3 < YR" "0 \<le> x3" "x3 < XR"
    and r1: "0 \<le> y1" "y1 < YR" "0 \<le> x1" "x1 < XR"
    and r2: "0 \<le> y2" "y2 < YR" "0 \<le> x2" "x2 < XR"
    and adj: "(y2 = y1 \<and> x2 \<noteq> x1) \<or> (x2 = x1 \<and> y2 \<noteq> y1)"
  shows "\<exists>e r rest.
           RN4_loop XR YR (y1 * XR + x1) (y2 * XR + x2) y3 x3 (ds @ e) = Inr (r, rest)"
proof (induction ds rule: length_induct)
  case (1 ds)
  from RN4_loop_accept[OF assms] obtain acc where
    acc: "\<And>e. \<exists>r rest.
       RN4_loop XR YR (y1 * XR + x1) (y2 * XR + x2) y3 x3 (acc @ e) = Inr (r, rest)" by blast
  show ?case
  proof (cases "adjacent_neuron XR YR y3 x3 ds")
    case (Inl err)
    from adjacent_neuron_complete[OF assms(2) r3(1,2) Inl] obtain e1 p where
      c: "\<And>e'. adjacent_neuron XR YR y3 x3 (ds @ e1 @ e') = Inr (p, e')" by blast
    obtain y4 x4 where p: "p = (y4, x4)" by (cases p)
    have "\<exists>r rest. RN4_loop XR YR (y1 * XR + x1) (y2 * XR + x2) y3 x3 (ds @ e1 @ acc)
        = Inr (r, rest)"
      using acc[of "[]"] by (simp add: RN4_loop_step[OF c[unfolded p]])
    then show ?thesis by blast
  next
    case (Inr v)
    obtain y4 x4 ds1 where v: "v = ((y4, x4), ds1)" by (cases v) auto
    note a = Inr[unfolded v]
    have less: "length ds1 < length ds" using adjacent_neuron_shorter[OF a] .
    from "1.IH" less obtain e r rest where
      ih: "RN4_loop XR YR (y1 * XR + x1) (y2 * XR + x2) y3 x3 (ds1 @ e) = Inr (r, rest)"
      by blast
    have "\<exists>r rest. RN4_loop XR YR (y1 * XR + x1) (y2 * XR + x2) y3 x3 (ds @ e) = Inr (r, rest)"
      using ih by (simp add: RN4_loop_step[OF adjacent_neuron_append[OF a]])
    then show ?thesis by blast
  qed
qed

lemma retinal_neuron_2_pairs_live:
  assumes "2 \<le> XR" "2 \<le> YR"
  shows "\<exists>e rn ds'. retinal_neuron_2_pairs XR YR (ds @ e) = Inr (rn, ds')"
proof -
  obtain d1 d2 ds2 where ds0: "ds @ [0, 0, 0, 0] = d1 # d2 # ds2" and l: "2 \<le> length ds2"
    by (cases ds; cases "tl ds") auto
  define y1 x1 where "y1 = int d1 mod YR" and "x1 = int d2 mod XR"
  have r1: "0 \<le> y1" "y1 < YR" "0 \<le> x1" "x1 < XR"
    using assms by (simp_all add: y1_def x1_def)
  have ry: "randint YR (d1 # d2 # tp) = Inr (y1, d2 # tp)"
    and rx: "randint XR (d2 # tp) = Inr (x1, tp)" for tp
    using assms by (simp_all add: randint_def y1_def x1_def)
  obtain y2 x2 ds3 where a: "adjacent_neuron XR YR y1 x1 ds2 = Inr ((y2, x2), ds3)"
    using adjacent_neuron_returns[OF l, of XR YR y1 x1] by auto
  note n = adjacent_neuron_Inr[OF assms r1 a]
  have adj: "(y2 = y1 \<and> x2 \<noteq> x1) \<or> (x2 = x1 \<and> y2 \<noteq> y1)" using n by auto
  obtain e3 y3 x3 RN3 ds4 where
    l3: "RN3_loop XR YR (y1 * XR + x1) (y2 * XR + x2) (ds3 @ e3) = Inr ((y3, x3, RN3), ds4)"
    using RN3_loop_live[OF assms, of "y1 * XR + x1" "y2 * XR + x2" ds3]
    by (metis prod_cases3)
  note r3 = RN3_loop_Inr[OF l3]
  obtain e4 RN4 ds5 where
    l4: "RN4_loop XR YR (y1 * XR + x1) (y2 * XR + x2) y3 x3 (ds4 @ e4) = Inr (RN4, ds5)"
    using RN4_loop_live[OF assms, of y3 x3 y1 x1 y2 x2 ds4] r3 r1 n adj by blast
  have t: "ds @ ([0, 0, 0, 0] @ e3 @ e4) = d1 # d2 # (ds2 @ e3 @ e4)"
    using ds0 by (metis append_Cons append_assoc)
  have a': "adjacent_neuron XR YR y1 x1 (ds2 @ e3 @ e4) = Inr ((y2, x2), ds3 @ e3 @ e4)"
    using adjacent_neuron_append[OF a] .
  have l3': "RN3_loop XR YR (y1 * XR + x1) (y2 * XR + x2) (ds3 @ e3 @ e4)
      = Inr ((y3, x3, RN3), ds4 @ e4)"
    using RN3_loop_append[OF l3, of e4] by simp
  have "retinal_neuron_2_pairs XR YR (ds @ ([0, 0, 0, 0] @ e3 @ e4))
      = Inr ([y1 * XR + x1, y2 * XR + x2, RN3, RN4], ds5)"
    unfolding t retinal_neuron_2_pairs_def
    by (simp add: ry rx a' l3' l4 bindE_def Let_def)
  then show ?thesis by blast
qed

lemma randint_Inl: "0 < n \<Longrightarrow> randint n ds = Inl e \<Longrightarrow> e = NoMoreDraws"
  by (auto simp: randint_def split: list.splits)

lemma RN3_loop_Inl:
  assumes "0 < XR" "0 < YR"
  shows "RN3_loop XR YR RN1 RN2 ds = Inl e \<Longrightarrow> e = NoMoreDraws"
proof (induction ds rule: induct_list012)
  case 1
  then show ?case using assms
    by (subst (asm) RN3_loop.simps) (simp add: randint_def bindE_def)
next
  case (2 x)
  then show ?case using assms
    by (subst (asm) RN3_loop.simps) (simp add: randint_def bindE_def)
next
  case (3 x y zs)
  then show ?case by (simp add: RN3_loop_Cons2[OF assms] split: if_splits)
qed

lemma RN4_loop_Inl:
  "RN4_loop XR YR RN1 RN2 y3 x3 ds = Inl e \<Longrightarrow> e = NoMoreDraws"
proof (induction ds rule: length_induct)
  case (1 ds)
  show ?case
  proof (cases "adjacent_neuron XR YR y3 x3 ds")
    case (Inl err)
    then have "RN4_loop XR YR RN1 RN2 y3 x3 ds = Inl err"
      by (subst RN4_loop.simps) (simp add: bindE_def)
    then show ?thesis using adjacent_neuron_error[OF Inl] "1.prems" by simp
  next
    case (Inr v)
    obtain y4 x4 ds1 where v: "v = ((y4, x4), ds1)" by (cases v) auto
    note a = Inr[unfolded v]
    have less: "length ds1 < length ds" using adjacent_neuron_shorter[OF a] .
    show ?thesis
      using "1.prems" "1.IH" less by (auto simp: RN4_loop_step[OF a] split: if_splits)
  qed
qed

lemma retinal_neuron_pairs_Inl:
  assumes "2 \<le> XR" "2 \<le> YR" "retinal_neuron_pairs XR YR ds = Inl e"
  shows "e = NoMoreDraws \<and> length ds < 4"
proof -
  have "e = NoMoreDraws"
    using assms
    by (auto simp: retinal_neuron_pairs_def bindE_Inl Let_def
             dest: randint_Inl[rotated] adjacent_neuron_error)
  moreover have "length ds < 4"
    using retinal_neuron_pairs_returns[OF assms(1,2), of ds] assms(3) by fastforce
  ultimately show ?thesis by simp
qed

lemma retinal_neuron_squares_Inl:
  assumes "2 \<le> XR" "2 \<le> YR" "retinal_neuron_squares XR YR ds = Inl e"
  shows "e = NoMoreDraws \<and> length ds < 4"
proof -
  have c: "choice [a, b] tp = Inl e \<Longrightarrow> e = NoMoreDraws" for a b :: int and tp
    by (auto simp: choice_def split: list.splits)
  have "e = NoMoreDraws"
    using assms
    by (auto simp: retinal_neuron_squares_def bindE_Inl Let_def
             split: if_splits dest: randint_Inl[rotated] c)
  moreover have "length ds < 4"
    using retinal_neuron_squares_returns[OF assms(1,2), of ds] assms(3) by fastforce
  ultimately show ?thesis by simp
qed

lemma retinal_neuron_2_pairs_Inl:
  assumes "2 \<le> XR" "2 \<le> YR" "retinal_neuron_2_pairs XR YR ds = Inl e"
  shows "e = NoMoreDraws"
  using assms
  by (auto simp: retinal_neuron_2_pairs_def bindE_Inl Let_def
           dest: randint_Inl[rotated] adjacent_neuron_error RN3_loop_Inl[rotated 2]
                 RN4_loop_Inl)

subsection \<open>Evaluations on small sheets\<close>

lemma py_range_2: "py_range 2 = [0, 1]" by code_simp

lemma graded_dist_same: "graded_dist 2 1 2 1 0 0 = 0" "graded_dist 2 1 2 1 1 1 = 0"
  by (simp_all add: graded_dist_def INV_SQRT_2_def Let_def)

lemma graded_dist_half: "graded_dist 2 1 2 1 1 0 = sqrt 2 / 2" "graded_dist 2 1 2 1 0 1 = sqrt 2 / 2"
  by (simp_all add: graded_dist_def INV_SQRT_2_def Let_def real_sqrt_divide)

lemma sqrt2_half_not_less: "\<not> sqrt 2 / 2 < (0.5::real)"
proof -
  have "1 \<le> sqrt 2" by simp
  then show ?thesis by simp
qed

subsection \<open>Lemmas on the quality loop\<close>

lemma length_py_range [simp]: "length (py_range n) = nat n"
  by (simp add: py_range_def)

lemma set_py_range: "i \<in> set (py_range n) \<longleftrightarrow> 0 \<le> i \<and> i < n"
proof
  assume "i \<in> set (py_range n)"
  then obtain k where "k < nat n" "i = int k" by (auto simp: py_range_def)
  then show "0 \<le> i \<and> i < n" by auto
next
  assume a: "0 \<le> i \<and> i < n"
  then have "nat i < nat n" "i = int (nat i)" by auto
  then show "i \<in> set (py_range n)" unfolding py_range_def
    by (metis atLeastLessThan_iff image_eqI set_map set_upt zero_le)
qed

lemma np_linspace_Inr:
  "0 \<le> num \<Longrightarrow> \<exists>l. np_linspace start stop num = Inr l \<and> length l = nat num"
  by (auto simp: np_linspace_def)

lemma np_tile_Inr:
  "0 \<le> n \<Longrightarrow> np_tile xs n = Inr (concat (replicate (nat n) xs))"
  by (simp add: np_tile_def)

lemma length_concat_replicate: "length (concat (replicate n xs)) = n * length xs"
  by (induction n) auto

lemma length_concat_map_replicate: "length (concat (map (replicate n) xs)) = length xs * n"
  by (induction xs) auto

lemma vec_get_Inr: "0 \<le> i \<Longrightarrow> i < int (length xs) \<Longrightarrow> vec_get xs i = Inr (xs ! nat i)"
  by (simp add: vec_get_def np_index_def bindE_def)

lemma for_each_fixed:
  "(\<And>i. i \<in> set xs \<Longrightarrow> body i q = Inr q) \<Longrightarrow> for_each xs body q = Inr q"
  by (induction xs) auto

lemma for_each_grows:
  fixes q :: real
  assumes "\<And>i q. i \<in> set xs \<Longrightarrow> \<exists>d. 0 \<le> d \<and> body i q = Inr (q + d)"
  shows "\<exists>q'. for_each xs body q = Inr q' \<and> q \<le> q'"
  using assms
proof (induction xs arbitrary: q)
  case Nil
  then show ?case by simp
next
  case (Cons x xs)
  from Cons.prems[of x q] obtain d where d: "0 \<le> d" "body x q = Inr (q + d)" by auto
  from Cons.IH[of "q + d"] Cons.prems obtain q' where
    "for_each xs body (q + d) = Inr q'" "q + d \<le> q'" by auto
  then show ?case using d by auto
qed

lemma perfect_arrays:
  assumes "0 \<le> XT" "0 \<le> YT"
  shows "\<exists>lx px ly py.
      np_linspace 0 (real_of_int (XR - 1)) XT = Inr lx \<and> np_tile lx YT = Inr px \<and>
      np_linspace 0 (real_of_int (YR - 1)) YT = Inr ly \<and> np_repeat ly XT = Inr py \<and>
      length px = nat (XT * YT) \<and> length py = nat (XT * YT)"
proof -
  obtain lx where lx: "np_linspace 0 (real_of_int (XR - 1)) XT = Inr lx" "length lx = nat XT"
    using np_linspace_Inr[OF assms(1)] by blast
  obtain ly where ly: "np_linspace 0 (real_of_int (YR - 1)) YT = Inr ly" "length ly = nat YT"
    using np_linspace_Inr[OF assms(2)] by blast
  have m: "nat (XT * YT) = nat XT * nat YT" using assms by (simp add: nat_mult_distrib)
  have "np_tile lx YT = Inr (concat (replicate (nat YT) lx))"
    using assms by (simp add: np_tile_def)
  moreover have "np_repeat ly XT = Inr (concat (map (replicate (nat XT)) ly))"
    using assms by (simp add: np_repeat_def)
  moreover have "length (concat (replicate (nat YT) lx)) = nat (XT * YT)"
    by (simp add: length_concat_replicate lx m)
  moreover have "length (concat (map (replicate (nat XT)) ly)) = nat (XT * YT)"
    by (simp add: length_concat_map_replicate ly m)
  ultimately show ?thesis using lx ly by blast
qed

lemma quality_unfold:
  assumes "np_linspace 0 (real_of_int (XR - 1)) XT = Inr lx" "np_tile lx YT = Inr px"
    "np_linspace 0 (real_of_int (YR - 1)) YT = Inr ly" "np_repeat ly XT = Inr py"
    "1 \<le> XT" "1 \<le> YT" "1 \<le> XR + YR"
  shows "quality XT YT XR YR COM_X COM_Y =
     bindE (for_each (py_range (XT * YT)) (\<lambda>i q.
              bindE (vec_get COM_X i) (\<lambda>cx.
              bindE (vec_get px i) (\<lambda>pcx.
              bindE (vec_get COM_Y i) (\<lambda>cy.
              bindE (vec_get py i) (\<lambda>pcy.
                Inr (q + sqrt ((cx - pcx) * (cx - pcx) + (cy - pcy) * (cy - pcy))
                           / sqrt (real_of_int (XR + YR)))))))) 0)
       (\<lambda>q. Inr (1 - q / real_of_int (XT * YT)))"
proof -
  have "0 < XR + YR" using assms by linarith
  then have "sqrt (real_of_int (XR + YR)) \<noteq> 0" "\<not> XR + YR < 0" by simp_all
  moreover have "XT * YT \<noteq> 0" using assms by simp
  ultimately show ?thesis
    unfolding quality_def
    by (simp only: assms(1-4) bindE_def sum.case) (simp add: Let_def cong: sum.case_cong)
qed

subsection \<open>Lemmas on thresholding and the update loops\<close>

lemma for_each_append:
  "for_each (xs @ ys) body s = bindE (for_each xs body s) (for_each ys body)"
  by (induction xs arbitrary: s) (auto simp: bindE_def split: sum.splits)

lemma py_range_Suc: "py_range (int (Suc n)) = py_range (int n) @ [int n]"
  unfolding py_range_def nat_int by simp

lemma mat_modify_Inr:
  "j < length s \<Longrightarrow> i < length (s ! j) \<Longrightarrow>
   mat_modify s (int j) (int i) f = Inr (s[j := (s ! j)[i := f (s ! j ! i)]])"
  by (simp add: mat_modify_def np_index_def bindE_def)

lemma mat_get_Inr:
  "j < length s \<Longrightarrow> i < length (s ! j) \<Longrightarrow> mat_get s (int j) (int i) = Inr (s ! j ! i)"
  by (simp add: mat_get_def np_index_def bindE_def)

lemma threshold_row:
  assumes "j < length H" "k \<le> length (H ! j)"
  shows "for_each (py_range (int k)) (\<lambda>i H_star.
         bindE (mat_get H_star (int j) i) (\<lambda>v.
           if v > theta then mat_modify H_star (int j) i (\<lambda>v. v - theta)
           else mat_modify H_star (int j) i (\<lambda>v. 0))) H
       = Inr (H[j := map (thr theta) (take k (H ! j)) @ drop k (H ! j)])"
  using assms(2)
proof (induction k)
  case 0
  then show ?case by (simp add: py_range_def)
next
  case (Suc k)
  let ?H = "H[j := map (thr theta) (take k (H ! j)) @ drop k (H ! j)]"
  have k: "k < length (H ! j)" using Suc.prems by simp
  have row: "?H ! j = map (thr theta) (take k (H ! j)) @ drop k (H ! j)"
    using assms(1) by simp
  have len: "length (?H ! j) = length (H ! j)" using k by (simp add: row)
  have cell: "?H ! j ! k = H ! j ! k"
    using k by (simp add: row nth_append)
  have upd: "(?H ! j)[k := thr theta (H ! j ! k)]
      = map (thr theta) (take (Suc k) (H ! j)) @ drop (Suc k) (H ! j)"
    using k unfolding row
    by (simp add: take_Suc_conv_app_nth list_update_append upd_conv_take_nth_drop
        Cons_nth_drop_Suc[symmetric])
  have step: "bindE (mat_get ?H (int j) (int k)) (\<lambda>v.
           if v > theta then mat_modify ?H (int j) (int k) (\<lambda>v. v - theta)
           else mat_modify ?H (int j) (int k) (\<lambda>v. 0))
        = Inr (?H[j := (?H ! j)[k := thr theta (H ! j ! k)]])"
    using assms(1) k len
    by (simp add: mat_get_Inr mat_modify_Inr bindE_def cell thr_def del: nth_list_update_eq)
  show ?case
    using Suc.IH k
    by (simp add: py_range_Suc for_each_append bindE_def step[unfolded bindE_def] upd
        del: nth_list_update_eq of_nat_Suc)
qed

lemma bindE_simps: "bindE (Inr v) f = f v" "bindE (Inl e) f = Inl e"
  by (simp_all add: bindE_def)

lemma threshold_rows:
  assumes "\<forall>row\<in>set H. length row = n" "m \<le> length H"
  shows "for_each (py_range (int m)) (\<lambda>j.
       for_each (py_range (int n)) (\<lambda>i H_star.
         bindE (mat_get H_star j i) (\<lambda>v.
           if v > theta then mat_modify H_star j i (\<lambda>v. v - theta)
           else mat_modify H_star j i (\<lambda>v. 0)))) H
       = Inr (map (map (thr theta)) (take m H) @ drop m H)"
  using assms(2)
proof (induction m)
  case 0
  then show ?case by (simp add: py_range_def)
next
  case (Suc m)
  let ?H = "map (map (thr theta)) (take m H) @ drop m H"
  have m: "m < length H" using Suc.prems by simp
  have lenH: "length ?H = length H" using m by simp
  have row: "?H ! m = H ! m" using m by (simp add: nth_append)
  have n: "length (H ! m) = n" using assms(1) m by simp
  have inner: "for_each (py_range (int n)) (\<lambda>i H_star.
         bindE (mat_get H_star (int m) i) (\<lambda>v.
           if v > theta then mat_modify H_star (int m) i (\<lambda>v. v - theta)
           else mat_modify H_star (int m) i (\<lambda>v. 0))) ?H
       = Inr (?H[m := map (thr theta) (H ! m)])"
    using threshold_row[of m ?H n theta] m n by (simp add: row lenH del: length_append)
  have upd: "?H[m := map (thr theta) (H ! m)]
      = map (map (thr theta)) (take (Suc m) H) @ drop (Suc m) H"
    using m
    by (simp add: take_Suc_conv_app_nth list_update_append upd_conv_take_nth_drop
        Cons_nth_drop_Suc[symmetric])
  show ?case
    using Suc.IH m
    by (simp add: py_range_Suc for_each_append bindE_simps inner upd del: of_nat_Suc)
qed

lemma threshold_Inr:
  assumes "0 \<le> XT" "0 \<le> YT" "length H = nat YT" "\<forall>row\<in>set H. length row = nat XT"
  shows "threshold H theta XT YT = Inr (map (map (thr theta)) H)"
proof -
  have "XT = int (nat XT)" "YT = int (length H)" using assms by simp_all
  then show ?thesis
    unfolding threshold_def
    using threshold_rows[OF assms(4), of "length H" theta] by simp
qed






subsection \<open>Lemmas on the relaxation loop\<close>

lemma fill_cell_zeros: "fill_cell (replicate m (replicate n 0)) r c = 0"
  by (auto simp: fill_cell_def)

lemma convolve2d_same_zeros:
  "convolve2d_same (replicate m (replicate n 0)) k = replicate m (replicate n 0)"
proof -
  have "map (\<lambda>r. map (\<lambda>c. (0::real)) [0..<length (replicate m (replicate n (0::real)) ! r)]) [0..<m]
      = map (\<lambda>r. replicate n 0) [0..<m]"
    by (rule map_cong) (simp_all add: map_replicate_const)
  also have "\<dots> = replicate m (replicate n 0)"
    by (simp add: map_replicate_const)
  finally show ?thesis
    by (simp add: convolve2d_same_def fill_cell_zeros)
qed

lemma mat_add_zeros:
  "mat_add (replicate m (replicate n 0)) (replicate m (replicate n 0)) = replicate m (replicate n 0)"
  by (simp add: mat_add_def)

lemma mat_scale_zeros:
  "mat_scale c (replicate m (replicate n 0)) = replicate m (replicate n 0)"
  by (simp add: mat_scale_def)

lemma threshold_zeros:
  assumes "0 \<le> XT" "0 \<le> YT" "0 \<le> theta"
  shows "threshold (replicate (nat YT) (replicate (nat XT) 0)) theta XT YT
       = Inr (replicate (nat YT) (replicate (nat XT) 0))"
proof -
  have "threshold (replicate (nat YT) (replicate (nat XT) 0)) theta XT YT
      = Inr (map (map (thr theta)) (replicate (nat YT) (replicate (nat XT) 0)))"
    using assms(1,2) by (intro threshold_Inr) simp_all
  then show ?thesis using assms(3) by (simp add: thr_def)
qed

lemma relax_step_zeros:
  assumes "0 \<le> XT" "0 \<le> YT" "0 \<le> theta"
  shows "relax_step (replicate (nat YT) (replicate (nat XT) 0)) XT YT dt modifiers alpha theta
           (replicate (nat YT) (replicate (nat XT) 0))
       = Inr (replicate (nat YT) (replicate (nat XT) 0))"
  unfolding relax_step_def
  by (simp add: threshold_zeros[OF assms] bindE_simps Let_def convolve2d_same_zeros
      mat_add_zeros mat_scale_zeros)

lemma sum_list_concat_zeros: "sum_list (concat (replicate m (replicate n (0::real)))) = 0"
  by (induction m) (simp_all add: sum_list_replicate)

lemma convergence_of_means_zeros:
  "\<not> convergence_of_means (np_mean (replicate m (replicate n 0)))
        (np_mean (replicate m (replicate n 0)))"
  by (simp add: convergence_of_means_def np_mean_def sum_list_concat_zeros convergence_def)

lemma relax_loop_zeros_Some:
  assumes z: "0 \<le> XT" "0 \<le> YT" "0 \<le> theta"
    and a: "relax_loop H0 XT' YT' dt modifiers alpha theta' verbose n_loops H = Some y"
  shows "H0 = replicate (nat YT) (replicate (nat XT) 0) \<and>
         H = replicate (nat YT) (replicate (nat XT) 0) \<and>
         XT' = XT \<and> YT' = YT \<and> theta' = theta \<and> \<not> verbose \<longrightarrow> False"
proof (rule relax_loop.raw_induct[where P = "\<lambda>H0 XT' YT' dt modifiers alpha theta' verbose
      n_loops H y. (H0 = replicate (nat YT) (replicate (nat XT) 0) \<and>
         H = replicate (nat YT) (replicate (nat XT) 0) \<and>
         XT' = XT \<and> YT' = YT \<and> theta' = theta \<and> \<not> verbose \<longrightarrow> False)", OF _ a], goal_cases)
  case (1 loop H0 XT' YT' dt modifiers alpha theta' verbose n_loops H y)
  show ?case
  proof
    assume h: "H0 = replicate (nat YT) (replicate (nat XT) 0) \<and>
         H = replicate (nat YT) (replicate (nat XT) 0) \<and>
         XT' = XT \<and> YT' = YT \<and> theta' = theta \<and> \<not> verbose"
    have s: "relax_step H0 XT' YT' dt modifiers alpha theta' H = Inr H"
      using relax_step_zeros[OF z] h by simp
    have c: "\<not> convergence_of_means (np_mean H) (np_mean H)"
      using convergence_of_means_zeros h by simp
    have nv: "\<not> verbose" using h by simp
    from 1(2)[unfolded s] have "loop H0 XT' YT' dt modifiers alpha theta' verbose n_loops H = Some y"
      using c nv by (simp add: Let_def)
    then show False using 1(1) h by blast
  qed
qed

lemma relax_loop_zeros_never_returns:
  assumes "0 \<le> XT" "0 \<le> YT" "0 \<le> theta"
  shows "relax_loop (replicate (nat YT) (replicate (nat XT) 0)) XT YT dt modifiers alpha theta
           False n_loops (replicate (nat YT) (replicate (nat XT) 0)) = None"
proof (cases "relax_loop (replicate (nat YT) (replicate (nat XT) 0)) XT YT dt modifiers alpha theta
           False n_loops (replicate (nat YT) (replicate (nat XT) 0))")
  case None
  then show ?thesis .
next
  case (Some y)
  then show ?thesis using relax_loop_zeros_Some[OF assms Some] by simp
qed

lemma relax_loop_returns_converged:
  assumes a: "relax_loop H0 XT YT dt modifiers alpha theta verbose n_loops H = Some y"
  shows "\<not> verbose \<longrightarrow> (\<forall>G. y = Inr G \<longrightarrow>
           (\<exists>H'. relax_step H0 XT YT dt modifiers alpha theta H' = Inr G \<and>
                 convergence_of_means (np_mean G) (np_mean H')))"
proof (rule relax_loop.raw_induct[where P = "\<lambda>H0 XT YT dt modifiers alpha theta verbose
      n_loops H y. \<not> verbose \<longrightarrow> (\<forall>G. y = Inr G \<longrightarrow>
           (\<exists>H'. relax_step H0 XT YT dt modifiers alpha theta H' = Inr G \<and>
                 convergence_of_means (np_mean G) (np_mean H')))", OF _ a], goal_cases)
  case (1 loop H0 XT YT dt modifiers alpha theta verbose n_loops H y)
  show ?case
  proof (intro impI allI)
    fix G
    assume nv: "\<not> verbose" and y: "y = Inr G"
    show "\<exists>H'. relax_step H0 XT YT dt modifiers alpha theta H' = Inr G \<and>
                 convergence_of_means (np_mean G) (np_mean H')"
    proof (cases "relax_step H0 XT YT dt modifiers alpha theta H")
      case (Inl e)
      then show ?thesis using 1(2) y by simp
    next
      case (Inr new_H_grid)
      show ?thesis
      proof (cases "convergence_of_means (np_mean new_H_grid) (np_mean H)")
        case True
        then have "G = new_H_grid" using 1(2) y nv Inr by (simp add: Let_def)
        then show ?thesis using Inr True by blast
      next
        case False
        then have "loop H0 XT YT dt modifiers alpha theta verbose n_loops new_H_grid = Some y"
          using 1(2) nv Inr by (simp add: Let_def)
        then show ?thesis using 1(1) nv y by blast
      qed
    qed
  qed
qed

lemma relax_loop_no_pass_Some:
  assumes a: "relax_loop H0 XT YT dt modifiers alpha theta verbose n_loops H = Some y"
  shows "\<not> verbose \<and>
       (\<forall>n. \<exists>Hn Hn'. relax_iterate n H0 XT YT dt modifiers alpha theta H = Inr Hn \<and>
              relax_step H0 XT YT dt modifiers alpha theta Hn = Inr Hn' \<and>
              \<not> convergence_of_means (np_mean Hn') (np_mean Hn)) \<longrightarrow> False"
proof (rule relax_loop.raw_induct[where P = "\<lambda>H0 XT YT dt modifiers alpha theta verbose
      n_loops H y. \<not> verbose \<and>
       (\<forall>n. \<exists>Hn Hn'. relax_iterate n H0 XT YT dt modifiers alpha theta H = Inr Hn \<and>
              relax_step H0 XT YT dt modifiers alpha theta Hn = Inr Hn' \<and>
              \<not> convergence_of_means (np_mean Hn') (np_mean Hn)) \<longrightarrow> False", OF _ a],
    goal_cases)
  case (1 loop H0 XT YT dt modifiers alpha theta verbose n_loops H y)
  show ?case
  proof
    assume h: "\<not> verbose \<and>
       (\<forall>n. \<exists>Hn Hn'. relax_iterate n H0 XT YT dt modifiers alpha theta H = Inr Hn \<and>
              relax_step H0 XT YT dt modifiers alpha theta Hn = Inr Hn' \<and>
              \<not> convergence_of_means (np_mean Hn') (np_mean Hn))"
    then have nv: "\<not> verbose" by simp
    from h obtain H' where s: "relax_step H0 XT YT dt modifiers alpha theta H = Inr H'"
      and c: "\<not> convergence_of_means (np_mean H') (np_mean H)"
      by (metis relax_iterate.simps(1) sum.inject(2))
    have next_steps: "\<exists>Hn Hn'. relax_iterate n H0 XT YT dt modifiers alpha theta H' = Inr Hn \<and>
              relax_step H0 XT YT dt modifiers alpha theta Hn = Inr Hn' \<and>
              \<not> convergence_of_means (np_mean Hn') (np_mean Hn)" for n
    proof -
      from h obtain Hn Hn' where
        "relax_iterate (Suc n) H0 XT YT dt modifiers alpha theta H = Inr Hn"
        "relax_step H0 XT YT dt modifiers alpha theta Hn = Inr Hn'"
        "\<not> convergence_of_means (np_mean Hn') (np_mean Hn)"
        by blast
      then show ?thesis by (auto simp: s bindE_simps)
    qed
    from 1(2)[unfolded s] have "loop H0 XT YT dt modifiers alpha theta verbose n_loops H' = Some y"
      using c nv by (simp add: Let_def)
    then show False using 1(1) nv next_steps by blast
  qed
qed

lemma relax_loop_returns_at:
  assumes "relax_iterate n H0 XT YT dt modifiers alpha theta H = Inr Hn"
    and "relax_step H0 XT YT dt modifiers alpha theta Hn = Inr G"
    and "convergence_of_means (np_mean G) (np_mean Hn)"
    and "\<forall>k<n. \<exists>Hk Hk'. relax_iterate k H0 XT YT dt modifiers alpha theta H = Inr Hk \<and>
              relax_step H0 XT YT dt modifiers alpha theta Hk = Inr Hk' \<and>
              \<not> convergence_of_means (np_mean Hk') (np_mean Hk)"
  shows "relax_loop H0 XT YT dt modifiers alpha theta False n_loops H = Some (Inr G)"
  using assms
proof (induction n arbitrary: H)
  case 0
  then have "Hn = H" by simp
  then show ?case using 0 by (subst relax_loop.simps) (simp add: Let_def)
next
  case (Suc n)
  from Suc.prems(4) obtain H' where s: "relax_step H0 XT YT dt modifiers alpha theta H = Inr H'"
    and c: "\<not> convergence_of_means (np_mean H') (np_mean H)"
    by (metis relax_iterate.simps(1) sum.inject(2) zero_less_Suc)
  have it: "relax_iterate n H0 XT YT dt modifiers alpha theta H' = Inr Hn"
    using Suc.prems(1) by (simp add: s bindE_simps)
  have earlier: "\<forall>k<n. \<exists>Hk Hk'. relax_iterate k H0 XT YT dt modifiers alpha theta H' = Inr Hk \<and>
              relax_step H0 XT YT dt modifiers alpha theta Hk = Inr Hk' \<and>
              \<not> convergence_of_means (np_mean Hk') (np_mean Hk)"
  proof (intro allI impI)
    fix k assume "k < n"
    then have "Suc k < Suc n" by simp
    with Suc.prems(4) obtain Hk Hk' where
      "relax_iterate (Suc k) H0 XT YT dt modifiers alpha theta H = Inr Hk"
      "relax_step H0 XT YT dt modifiers alpha theta Hk = Inr Hk'"
      "\<not> convergence_of_means (np_mean Hk') (np_mean Hk)"
      by blast
    then show "\<exists>Hk Hk'. relax_iterate k H0 XT YT dt modifiers alpha theta H' = Inr Hk \<and>
              relax_step H0 XT YT dt modifiers alpha theta Hk = Inr Hk' \<and>
              \<not> convergence_of_means (np_mean Hk') (np_mean Hk)"
      by (auto simp: s bindE_simps)
  qed
  have "relax_loop H0 XT YT dt modifiers alpha theta False n_loops H' = Some (Inr G)"
    using Suc.IH[OF it Suc.prems(2,3) earlier] .
  then show ?case using c by (subst relax_loop.simps) (simp add: s Let_def)
qed

lemma relax_step_single:
  assumes "v \<le> theta"
  shows "relax_step [[h0]] 1 1 dt modifiers alpha theta [[v]] = Inr [[v + dt * (h0 + 0 + alpha * v)]]"
proof -
  have t: "threshold [[v]] theta 1 1 = Inr [[0]]"
    using threshold_Inr[of 1 1 "[[v]]" theta] assms by (simp add: thr_def)
  have c: "convolve2d_same [[0]] modifiers = [[0]]"
    using convolve2d_same_zeros[of 1 1 modifiers] by simp
  show ?thesis
    unfolding relax_step_def
    by (simp add: t c bindE_simps Let_def mat_add_def mat_scale_def)
qed

section \<open>Properties\<close>

text \<open>
  C1. The claim reads: the test reports Converged exactly when
  \<open>\<bar>m_after - m_before\<bar> < 0.005 * \<bar>m_before\<bar>\<close>, also for a negative mean. The code
  multiplies by the signed mean: at \<open>m_before = m_after = -1\<close> the claimed criterion
  holds (the mean did not change at all) and the code reports not converged.
\<close>

theorem convergence_negative_mean:
  "convergence (-1) (-1) = False \<and> \<bar>(-1) - (-1)\<bar> < 0.005 * \<bar>-1 :: real\<bar>"
  by (simp add: convergence_def)

text \<open>
  C2. The claim reads: the relaxation loop performs a bounded number of iterations and
  surfaces a distinct failure when the bound is exceeded. As stated it is false: on a
  tectal sheet of one neuron with no retinal drive, with the parameters of the spec's
  own test, every step leaves the grid at 0, the test \<open>0 < 0.005 * 0\<close> fails each
  time, and the call never returns.
\<close>

theorem relaxation_zero_grid_never_returns:
  "tectal_interactions [[0]] 1 1 1 0.05 0.025 (-0.06) (-0.5) 10 False = None"
  using relax_loop_zeros_never_returns[of 1 1 10 1 "tectal_modifiers 0.05 0.025 (-0.06)" "-0.5" 0]
  by (simp add: tectal_interactions_def)

text \<open>
  C2, as amended, with \<^verbatim>\<open>verbose\<close> off: the loop has no iteration guard and no
  failure for non-convergence. When the call returns a grid, that grid is the result
  of a step that passed the convergence test. When the passes before the \<open>n\<close>-th all
  complete and fail the test and the \<open>n\<close>-th passes it, the call returns the grid of
  that pass, whatever \<open>n\<close> is. When every pass completes and fails the test, the call
  never returns; so it is on an all-zero grid with \<open>theta \<ge> 0\<close>, for every sheet size, step size, interaction
  coefficients and decay.
\<close>

theorem relaxation_returns_only_on_convergence:
  "(\<forall>G. tectal_interactions H0 XT YT dt beta gamma delta alpha theta False = Some (Inr G) \<longrightarrow>
      (\<exists>H. relax_step H0 XT YT dt (tectal_modifiers beta gamma delta) alpha theta H = Inr G \<and>
           convergence_of_means (np_mean G) (np_mean H)))
   \<and> (\<forall>n Hn G. 0 \<le> XT \<and> 0 \<le> YT \<and>
         relax_iterate n H0 XT YT dt (tectal_modifiers beta gamma delta) alpha theta H0 = Inr Hn \<and>
         relax_step H0 XT YT dt (tectal_modifiers beta gamma delta) alpha theta Hn = Inr G \<and>
         convergence_of_means (np_mean G) (np_mean Hn) \<and>
         (\<forall>k<n. \<exists>Hk Hk'.
            relax_iterate k H0 XT YT dt (tectal_modifiers beta gamma delta) alpha theta H0 = Inr Hk \<and>
            relax_step H0 XT YT dt (tectal_modifiers beta gamma delta) alpha theta Hk = Inr Hk' \<and>
            \<not> convergence_of_means (np_mean Hk') (np_mean Hk)) \<longrightarrow>
         tectal_interactions H0 XT YT dt beta gamma delta alpha theta False = Some (Inr G))
   \<and> (0 \<le> XT \<and> 0 \<le> YT \<and>
       (\<forall>n. \<exists>Hn Hn'.
          relax_iterate n H0 XT YT dt (tectal_modifiers beta gamma delta) alpha theta H0 = Inr Hn \<and>
          relax_step H0 XT YT dt (tectal_modifiers beta gamma delta) alpha theta Hn = Inr Hn' \<and>
          \<not> convergence_of_means (np_mean Hn') (np_mean Hn)) \<longrightarrow>
       tectal_interactions H0 XT YT dt beta gamma delta alpha theta False = None)
   \<and> (1 \<le> XT \<and> 1 \<le> YT \<and> 0 \<le> theta \<longrightarrow>
        tectal_interactions (replicate (nat YT) (replicate (nat XT) 0)) XT YT dt beta gamma delta
          alpha theta False = None)"
proof (intro conjI allI impI)
  fix G
  assume "tectal_interactions H0 XT YT dt beta gamma delta alpha theta False = Some (Inr G)"
  then have "relax_loop H0 XT YT dt (tectal_modifiers beta gamma delta) alpha theta False 0 H0
      = Some (Inr G)"
    by (simp add: tectal_interactions_def split: if_splits)
  from relax_loop_returns_converged[OF this]
  show "\<exists>H. relax_step H0 XT YT dt (tectal_modifiers beta gamma delta) alpha theta H = Inr G \<and>
           convergence_of_means (np_mean G) (np_mean H)"
    by simp
next
  fix n Hn G
  assume h: "0 \<le> XT \<and> 0 \<le> YT \<and>
         relax_iterate n H0 XT YT dt (tectal_modifiers beta gamma delta) alpha theta H0 = Inr Hn \<and>
         relax_step H0 XT YT dt (tectal_modifiers beta gamma delta) alpha theta Hn = Inr G \<and>
         convergence_of_means (np_mean G) (np_mean Hn) \<and>
         (\<forall>k<n. \<exists>Hk Hk'.
            relax_iterate k H0 XT YT dt (tectal_modifiers beta gamma delta) alpha theta H0 = Inr Hk \<and>
            relax_step H0 XT YT dt (tectal_modifiers beta gamma delta) alpha theta Hk = Inr Hk' \<and>
            \<not> convergence_of_means (np_mean Hk') (np_mean Hk))"
  then have p: "relax_iterate n H0 XT YT dt (tectal_modifiers beta gamma delta) alpha theta H0 = Inr Hn"
    "relax_step H0 XT YT dt (tectal_modifiers beta gamma delta) alpha theta Hn = Inr G"
    "convergence_of_means (np_mean G) (np_mean Hn)"
    "\<forall>k<n. \<exists>Hk Hk'.
            relax_iterate k H0 XT YT dt (tectal_modifiers beta gamma delta) alpha theta H0 = Inr Hk \<and>
            relax_step H0 XT YT dt (tectal_modifiers beta gamma delta) alpha theta Hk = Inr Hk' \<and>
            \<not> convergence_of_means (np_mean Hk') (np_mean Hk)"
    by blast+
  have "relax_loop H0 XT YT dt (tectal_modifiers beta gamma delta) alpha theta False 0 H0
      = Some (Inr G)"
    by (rule relax_loop_returns_at[OF p])
  then show "tectal_interactions H0 XT YT dt beta gamma delta alpha theta False = Some (Inr G)"
    using h by (simp add: tectal_interactions_def)
next
  assume h: "0 \<le> XT \<and> 0 \<le> YT \<and>
       (\<forall>n. \<exists>Hn Hn'.
          relax_iterate n H0 XT YT dt (tectal_modifiers beta gamma delta) alpha theta H0 = Inr Hn \<and>
          relax_step H0 XT YT dt (tectal_modifiers beta gamma delta) alpha theta Hn = Inr Hn' \<and>
          \<not> convergence_of_means (np_mean Hn') (np_mean Hn))"
  have "relax_loop H0 XT YT dt (tectal_modifiers beta gamma delta) alpha theta False 0 H0 = None"
  proof (cases "relax_loop H0 XT YT dt (tectal_modifiers beta gamma delta) alpha theta False 0 H0")
    case None
    then show ?thesis .
  next
    case (Some y)
    then show ?thesis using relax_loop_no_pass_Some[OF Some] h by blast
  qed
  then show "tectal_interactions H0 XT YT dt beta gamma delta alpha theta False = None"
    using h by (simp add: tectal_interactions_def)
next
  assume h: "1 \<le> XT \<and> 1 \<le> YT \<and> 0 \<le> theta"
  then have "0 \<le> XT" "0 \<le> YT" "0 \<le> theta" by simp_all
  from relax_loop_zeros_never_returns[OF this]
  show "tectal_interactions (replicate (nat YT) (replicate (nat XT) 0)) XT YT dt beta gamma delta
          alpha theta False = None"
    using h by (simp add: tectal_interactions_def)
qed

theorem relaxation_returns_only_on_convergence_witness:
  "(0::int) \<le> 1
   \<and> relax_iterate 1 [[1]] 1 1 (1 / 2) (tectal_modifiers 0.05 0.025 (-0.06)) (-2) 10 [[1]]
       = Inr [[1 / 2]]
   \<and> relax_step [[1]] 1 1 (1 / 2) (tectal_modifiers 0.05 0.025 (-0.06)) (-2) 10 [[1 / 2]]
       = Inr [[1 / 2]]
   \<and> convergence_of_means (np_mean [[1 / 2]]) (np_mean [[1 / 2]])
   \<and> \<not> convergence_of_means (np_mean [[1 / 2]]) (np_mean [[1]])
   \<and> tectal_interactions [[1]] 1 1 (1 / 2) 0.05 0.025 (-0.06) (-2) 10 False
       = Some (Inr [[1 / 2]])
   \<and> (1::int) \<le> 2 \<and> (0::real) \<le> 10
   \<and> tectal_interactions [[0, 0], [0, 0]] 2 2 1 0.05 0.025 (-0.06) (-0.5) 10 False = None"
proof -
  let ?K = "tectal_modifiers 0.05 0.025 (-0.06)"
  have a: "(0::int) \<le> 1" "(1::int) \<le> 2" "(0::real) \<le> 10" by simp_all
  have s0: "relax_step [[1]] 1 1 (1 / 2) ?K (-2) 10 [[1]] = Inr [[1 / 2]]"
    using relax_step_single[of 1 10 1 "1 / 2" ?K "-2"] by simp
  have s1: "relax_step [[1]] 1 1 (1 / 2) ?K (-2) 10 [[1 / 2]] = Inr [[1 / 2]]"
    using relax_step_single[of "1 / 2" 10 1 "1 / 2" ?K "-2"] by simp
  have i0: "relax_iterate 0 [[1]] 1 1 (1 / 2) ?K (-2) 10 [[1]] = Inr [[1]]"
    by (simp only: relax_iterate.simps)
  have i1: "relax_iterate 1 [[1]] 1 1 (1 / 2) ?K (-2) 10 [[1]] = Inr [[1 / 2]]"
    by (simp only: One_nat_def relax_iterate.simps s0 bindE_simps)
  have c1: "convergence_of_means (np_mean [[1 / 2]]) (np_mean [[1 / 2]])"
    by (simp add: convergence_of_means_def np_mean_def convergence_def)
  have c0: "\<not> convergence_of_means (np_mean [[1 / 2]]) (np_mean [[1]])"
    by (simp add: convergence_of_means_def np_mean_def convergence_def)
  have e: "\<forall>k<1. \<exists>Hk Hk'. relax_iterate k [[1]] 1 1 (1 / 2) ?K (-2) 10 [[1]] = Inr Hk \<and>
            relax_step [[1]] 1 1 (1 / 2) ?K (-2) 10 Hk = Inr Hk' \<and>
            \<not> convergence_of_means (np_mean Hk') (np_mean Hk)"
    using i0 s0 c0 by (metis less_one)
  note t1 = relaxation_returns_only_on_convergence[of "[[1]]" 1 1 "1 / 2" "0.05" "0.025" "-0.06"
      "-2" 10]
  note t2 = relaxation_returns_only_on_convergence[of _ 2 2 1 "0.05" "0.025" "-0.06" "-0.5" 10]
  have r1: "tectal_interactions [[1]] 1 1 (1 / 2) 0.05 0.025 (-0.06) (-2) 10 False
       = Some (Inr [[1 / 2]])"
    using t1 a(1) i1 s1 c1 e by blast
  have z: "replicate (nat 2) (replicate (nat 2) (0::real)) = [[0, 0], [0, 0]]"
    by (simp add: numeral_2_eq_2)
  have r2: "tectal_interactions [[0, 0], [0, 0]] 2 2 1 0.05 0.025 (-0.06) (-0.5) 10 False = None"
    using t2 a z by simp
  show ?thesis using a i1 s1 c1 c0 r1 r2 by blast
qed

text \<open>
  C3. The claim reads: the distance between the normalised positions is divided by
  \<open>sqrt 2\<close>, and the synapse is multiplied by \<open>5 - 8 * distance\<close> when that is below
  0.5. The code divides by \<open>1 / sqrt 2\<close>, so it multiplies by \<open>sqrt 2\<close>. On two sheets
  of 2 by 1 neurons, retinal neuron 1 and tectal neuron 0 are 1/2 apart: the claimed
  distance \<open>(1/2) / sqrt 2\<close> is below 0.5, and the code leaves that synapse unchanged;
  only the pairs at distance 0 are multiplied, by 5.
\<close>

theorem graded_polarity_markers_multiplies_distance:
  "graded_polarity_markers [[1, 1], [1, 1]] 2 1 2 1 = Inr [[5, 1], [1, 5]]
   \<and> sqrt ((0 - 0) * (0 - 0) + (1 / 2 - 0) * (1 / 2 - 0)) / sqrt 2 < (0.5 :: real)"
proof
  show "graded_polarity_markers [[1, 1], [1, 1]] 2 1 2 1 = Inr [[5, 1], [1, 5]]"
    using sqrt2_half_not_less
    by (simp add: graded_polarity_markers_def py_range_2 graded_body_def graded_dist_same
        graded_dist_half mat_modify_def np_index_def bindE_def)
  have "1 < sqrt 2" by simp
  then show "sqrt ((0 - 0) * (0 - 0) + (1 / 2 - 0) * (1 / 2 - 0)) / sqrt 2 < (0.5 :: real)"
    by (simp add: real_sqrt_divide field_simps)
qed



text \<open>
  C5. The claim reads: in the random anchor mode too, the four retinal indices are an
  in-bounds contiguous 2 by 2 block. With both draws 0 on a 3 by 3 sheet the code
  returns the indices 0, 1, -3 and -2: the second row of the anchor is at \<open>y1 - 1\<close>, and
  numpy reads the negative indices as neurons 6 and 7, the bottom row. The four
  products land on the synapses (0,0), (1,1), (6,6) and (7,7), and the neurons below
  the first two, 3 and 4, are untouched.
\<close>

theorem random_polarity_markers_wrap_around:
  "configure_retinal_polarity_markers 3 3 False [0, 0] = Inr ((0, 1, -3, -2), [])
   \<and> (\<exists>s'. square_polarity_markers (replicate 9 (replicate 9 1)) False 3 3 3 3 5 [0, 0, 0, 0]
             = Inr (s', [])
          \<and> s' ! 0 ! 0 = 5 \<and> s' ! 1 ! 1 = 5 \<and> s' ! 6 ! 6 = 5 \<and> s' ! 7 ! 7 = 5
          \<and> s' ! 3 ! 3 = 1 \<and> s' ! 4 ! 4 = 1)"
  by (simp add: square_polarity_markers_def configure_retinal_polarity_markers_def
      configure_tectal_polarity_markers_def randint_def bindE_def np_index_def
      increase_polarity_marker_synapse_strengths_def mat_modify_def Let_def nth_list_update)

text \<open>
  C6. The claim reads: column \<open>k\<close> when \<open>k < XR\<close>, row \<open>k - XR\<close> otherwise. The code
  tests \<open>k < YR\<close>. On a sheet 2 wide and 3 high, epoch 2 is row 0 by the claim, the
  neurons 0 and 1; the code returns 2, 4 and 6, which is no row and no column, and 6
  is not a neuron of the sheet.
\<close>

theorem sweep_rectangular_sheet: "retinal_neuron_sweep 2 3 2 = Inr [2, 4, 6]"
  by code_simp

text \<open>
  C7. On a retinal sheet with \<open>XR \<ge> 2\<close> and \<open>YR \<ge> 2\<close>, whatever the draws on the
  tape: \<^verbatim>\<open>pairs\<close> returns 2 indices and \<^verbatim>\<open>squares\<close> returns 4, pairwise distinct
  and within \<open>[0, XR * YR)\<close>, as soon as the tape holds the at most four draws they ask
  for; \<^verbatim>\<open>2_pairs\<close> returns 4 such indices whenever its rejection loops end on the
  tape, raises nothing, and from every tape some further draws make it return.
\<close>

theorem activation_sets_distinct_in_bounds:
  assumes "2 \<le> XR" "2 \<le> YR"
  shows "((\<exists>rn ds'. retinal_neuron_pairs XR YR ds = Inr (rn, ds') \<and> length rn = 2 \<and>
             distinct rn \<and> (\<forall>r\<in>set rn. 0 \<le> r \<and> r < XR * YR))
          \<or> (retinal_neuron_pairs XR YR ds = Inl NoMoreDraws \<and> length ds < 4))
       \<and> ((\<exists>rn ds'. retinal_neuron_squares XR YR ds = Inr (rn, ds') \<and> length rn = 4 \<and>
             distinct rn \<and> (\<forall>r\<in>set rn. 0 \<le> r \<and> r < XR * YR))
          \<or> (retinal_neuron_squares XR YR ds = Inl NoMoreDraws \<and> length ds < 4))
       \<and> ((\<exists>rn ds'. retinal_neuron_2_pairs XR YR ds = Inr (rn, ds') \<and> length rn = 4 \<and>
             distinct rn \<and> (\<forall>r\<in>set rn. 0 \<le> r \<and> r < XR * YR))
          \<or> retinal_neuron_2_pairs XR YR ds = Inl NoMoreDraws)
       \<and> (\<exists>e rn ds'. retinal_neuron_2_pairs XR YR (ds @ e) = Inr (rn, ds'))"
proof (intro conjI)
  show "(\<exists>rn ds'. retinal_neuron_pairs XR YR ds = Inr (rn, ds') \<and> length rn = 2 \<and>
             distinct rn \<and> (\<forall>r\<in>set rn. 0 \<le> r \<and> r < XR * YR))
          \<or> (retinal_neuron_pairs XR YR ds = Inl NoMoreDraws \<and> length ds < 4)"
  proof (cases "retinal_neuron_pairs XR YR ds")
    case (Inl e)
    then show ?thesis using retinal_neuron_pairs_Inl[OF assms Inl] by simp
  next
    case (Inr v)
    then show ?thesis using retinal_neuron_pairs_Inr[OF assms, of ds "fst v" "snd v"]
      by (cases v) auto
  qed
  show "(\<exists>rn ds'. retinal_neuron_squares XR YR ds = Inr (rn, ds') \<and> length rn = 4 \<and>
             distinct rn \<and> (\<forall>r\<in>set rn. 0 \<le> r \<and> r < XR * YR))
          \<or> (retinal_neuron_squares XR YR ds = Inl NoMoreDraws \<and> length ds < 4)"
  proof (cases "retinal_neuron_squares XR YR ds")
    case (Inl e)
    then show ?thesis using retinal_neuron_squares_Inl[OF assms Inl] by simp
  next
    case (Inr v)
    then show ?thesis using retinal_neuron_squares_Inr[OF assms, of ds "fst v" "snd v"]
      by (cases v) auto
  qed
  show "(\<exists>rn ds'. retinal_neuron_2_pairs XR YR ds = Inr (rn, ds') \<and> length rn = 4 \<and>
             distinct rn \<and> (\<forall>r\<in>set rn. 0 \<le> r \<and> r < XR * YR))
          \<or> retinal_neuron_2_pairs XR YR ds = Inl NoMoreDraws"
  proof (cases "retinal_neuron_2_pairs XR YR ds")
    case (Inl e)
    then show ?thesis using retinal_neuron_2_pairs_Inl[OF assms Inl] by simp
  next
    case (Inr v)
    then show ?thesis using retinal_neuron_2_pairs_Inr[OF assms, of ds "fst v" "snd v"]
      by (cases v) auto
  qed
  show "\<exists>e rn ds'. retinal_neuron_2_pairs XR YR (ds @ e) = Inr (rn, ds')"
    using retinal_neuron_2_pairs_live[OF assms] .
qed

theorem activation_sets_distinct_in_bounds_witness:
  "(2::int) \<le> 8
   \<and> retinal_neuron_pairs 8 8 [3, 4, 1, 0] = Inr ([28, 27], [])
   \<and> retinal_neuron_squares 8 8 [3, 4, 1, 0] = Inr ([28, 36, 27, 35], [])
   \<and> retinal_neuron_2_pairs 8 8 [3, 4, 1, 0, 3, 4, 3, 3, 3, 5, 2, 1] = Inr ([28, 27, 29, 37], [1])
   \<and> (\<exists>e rn ds'. retinal_neuron_2_pairs 8 8 ([3, 4, 1, 0, 3, 4] @ e) = Inr (rn, ds'))"
proof -
  have h: "(2::int) \<le> 8" by simp
  note t = activation_sets_distinct_in_bounds[OF h h, of "[3, 4, 1, 0, 3, 4]"]
  have e1: "retinal_neuron_pairs 8 8 [3, 4, 1, 0] = Inr ([28, 27], [])"
    by (simp add: retinal_neuron_pairs_def adjacent_neuron_def randint_def choice_def bindE_def)
  have e2: "retinal_neuron_squares 8 8 [3, 4, 1, 0] = Inr ([28, 36, 27, 35], [])"
    by (simp add: retinal_neuron_squares_def randint_def choice_def bindE_def)
  have e3: "retinal_neuron_2_pairs 8 8 [3, 4, 1, 0, 3, 4, 3, 3, 3, 5, 2, 1]
      = Inr ([28, 27, 29, 37], [1])"
    by (simp add: retinal_neuron_2_pairs_def adjacent_neuron_def randint_def choice_def bindE_def
        RN3_loop.simps RN4_loop.simps)
  show ?thesis using h t e1 e2 e3 by blast
qed

text \<open>
  C8. The claim reads: an unrecognised policy name or polarity kind fails explicitly.
  As stated it is false: both dispatchers return \<^verbatim>\<open>None\<close> and raise nothing.
\<close>

theorem unknown_names_return_None:
  "activate_retinal_neurons ''spiral'' 8 8 0 [] = Inr (None, [])
   \<and> implement_polarity_markers ''round'' [[1]] True 1 1 1 1 5 [] = Inr (None, [])"
  by (simp add: activate_retinal_neurons_def implement_polarity_markers_def)

text \<open>
  C8, as amended: for a policy name outside the eight recognised ones and a polarity
  kind other than square and graded, the dispatchers raise nothing, draw nothing and
  return \<^verbatim>\<open>None\<close>.
\<close>

theorem dispatchers_fall_through:
  assumes "activity_pattern \<notin> {''pairs'', ''squares'', ''sweep'', ''2_pairs'', ''singles'',
             ''strobe'', ''2_singles'', ''occular_dominance''}"
    and "PM_type \<notin> {''square'', ''graded''}"
  shows "activate_retinal_neurons activity_pattern XR YR loop_count ds = Inr (None, ds)
       \<and> implement_polarity_markers PM_type s default_polarity_markers XR YR XT YT
            PM_strength_increase ds = Inr (None, ds)"
  using assms by (simp add: activate_retinal_neurons_def implement_polarity_markers_def)

theorem dispatchers_fall_through_witness:
  "''spiral'' \<notin> {''pairs'', ''squares'', ''sweep'', ''2_pairs'', ''singles'',
             ''strobe'', ''2_singles'', ''occular_dominance''}
   \<and> ''round'' \<notin> {''square'', ''graded''}
   \<and> activate_retinal_neurons ''spiral'' 8 8 7 [1, 2] = Inr (None, [1, 2])
   \<and> implement_polarity_markers ''round'' [[2]] False 1 1 1 1 5 [1, 2] = Inr (None, [1, 2])"
proof -
  have a: "''spiral'' \<notin> {''pairs'', ''squares'', ''sweep'', ''2_pairs'', ''singles'',
             ''strobe'', ''2_singles'', ''occular_dominance''}" by simp
  have b: "''round'' \<notin> {''square'', ''graded''}" by simp
  show ?thesis using a b dispatchers_fall_through[OF a b] by simp
qed

text \<open>
  C9. The claim reads: for every geometry, \<^verbatim>\<open>quality\<close> applied to the ideal mapping
  itself returns exactly 1. As stated it is false. With \<open>XT = 0\<close> the ideal arrays are
  empty, the loop does not run and \<^verbatim>\<open>q /= XT*YT\<close> raises ZeroDivisionError; with
  \<open>XR = YR = 0\<close> the maximal displacement \<open>sqrt (XR + YR)\<close> is 0 and the division inside
  the loop raises ZeroDivisionError.
\<close>

theorem quality_ideal_mapping_raises:
  "np_linspace 0 (real_of_int (1 - 1)) 0 = Inr []
   \<and> np_tile ([] :: real list) 1 = Inr []
   \<and> np_linspace 0 (real_of_int (1 - 1)) 1 = Inr [0]
   \<and> np_repeat [0 :: real] 0 = Inr []
   \<and> quality 0 1 1 1 [] [] = Inl ZeroDivisionError
   \<and> np_linspace 0 (real_of_int (0 - 1)) 1 = Inr [0]
   \<and> np_tile [0 :: real] 1 = Inr [0]
   \<and> np_repeat [0 :: real] 1 = Inr [0]
   \<and> quality 1 1 0 0 [0] [0] = Inl ZeroDivisionError"
  by (simp add: quality_def np_linspace_def np_tile_def np_repeat_def bindE_def py_range_def
      vec_get_def np_index_def)

text \<open>
  C9, as amended: for tectal dimensions \<open>XT \<ge> 1\<close> and \<open>YT \<ge> 1\<close> and retinal dimensions
  with \<open>XR + YR \<ge> 1\<close> (so for all sheets with every dimension at least 1),
  \<^verbatim>\<open>quality\<close> applied to the ideal mapping itself,
  \<open>COM_X = tile(linspace(0, XR - 1, XT), YT)\<close> and
  \<open>COM_Y = repeat(linspace(0, YR - 1, YT), XT)\<close>, returns exactly 1.
\<close>

theorem quality_ideal_mapping:
  assumes "1 \<le> XT" "1 \<le> YT" "1 \<le> XR + YR"
    and "bindE (np_linspace 0 (real_of_int (XR - 1)) XT) (\<lambda>l. np_tile l YT) = Inr COM_X"
    and "bindE (np_linspace 0 (real_of_int (YR - 1)) YT) (\<lambda>l. np_repeat l XT) = Inr COM_Y"
  shows "quality XT YT XR YR COM_X COM_Y = Inr 1"
proof -
  from perfect_arrays[of XT YT XR YR] assms(1,2) obtain lx px ly py where
    p: "np_linspace 0 (real_of_int (XR - 1)) XT = Inr lx" "np_tile lx YT = Inr px"
       "np_linspace 0 (real_of_int (YR - 1)) YT = Inr ly" "np_repeat ly XT = Inr py"
    and len: "length px = nat (XT * YT)" "length py = nat (XT * YT)"
    by force
  have eq: "COM_X = px" "COM_Y = py"
    using assms(4,5) p by (simp_all add: bindE_def)
  have body: "bindE (vec_get px i) (\<lambda>cx.
              bindE (vec_get px i) (\<lambda>pcx.
              bindE (vec_get py i) (\<lambda>cy.
              bindE (vec_get py i) (\<lambda>pcy.
                Inr (0 + sqrt ((cx - pcx) * (cx - pcx) + (cy - pcy) * (cy - pcy))
                           / sqrt (real_of_int (XR + YR))))))) = Inr 0"
    if "i \<in> set (py_range (XT * YT))" for i
  proof -
    have "0 \<le> i" "i < int (length px)" "i < int (length py)"
      using that by (simp_all add: set_py_range len)
    then show ?thesis by (simp add: vec_get_Inr bindE_def)
  qed
  have "for_each (py_range (XT * YT)) (\<lambda>i q.
              bindE (vec_get px i) (\<lambda>cx.
              bindE (vec_get px i) (\<lambda>pcx.
              bindE (vec_get py i) (\<lambda>cy.
              bindE (vec_get py i) (\<lambda>pcy.
                Inr (q + sqrt ((cx - pcx) * (cx - pcx) + (cy - pcy) * (cy - pcy))
                           / sqrt (real_of_int (XR + YR)))))))) 0 = Inr 0"
    by (rule for_each_fixed) (rule body)
  then show ?thesis
    unfolding eq quality_unfold[OF p assms(1-3)] by (simp add: bindE_def)
qed

theorem quality_ideal_mapping_witness:
  "(1::int) \<le> 2 \<and> (1::int) \<le> 1 \<and> (1::int) \<le> 3 + 2
   \<and> bindE (np_linspace 0 (real_of_int (3 - 1)) 2) (\<lambda>l. np_tile l 1) = Inr [0, 2]
   \<and> bindE (np_linspace 0 (real_of_int (2 - 1)) 1) (\<lambda>l. np_repeat l 2) = Inr [0, 0]
   \<and> quality 2 1 3 2 [0, 2] [0, 0] = Inr 1"
proof -
  have d: "(1::int) \<le> 2" "(1::int) \<le> 1" "(1::int) \<le> 3 + 2" by simp_all
  have x: "bindE (np_linspace 0 (real_of_int (3 - 1)) 2) (\<lambda>l. np_tile l 1) = Inr [0, 2]"
    by (simp add: np_linspace_def np_tile_def bindE_def py_range_2)
  have y: "bindE (np_linspace 0 (real_of_int (2 - 1)) 1) (\<lambda>l. np_repeat l 2) = Inr [0, 0]"
    by (simp add: np_linspace_def np_repeat_def bindE_def numeral_2_eq_2)
  show ?thesis
    using d x y quality_ideal_mapping[OF d(1) d(2) d(3) x y] by simp
qed

text \<open>
  C10. For sheets with every dimension at least 1 and coordinate arrays of length
  \<open>XT * YT\<close>, \<^verbatim>\<open>quality\<close> returns a value, and that value is at most 1.
\<close>

theorem quality_at_most_one:
  assumes "1 \<le> XT" "1 \<le> YT" "1 \<le> XR" "1 \<le> YR"
    and "length COM_X = nat (XT * YT)" "length COM_Y = nat (XT * YT)"
  shows "\<exists>q. quality XT YT XR YR COM_X COM_Y = Inr q \<and> q \<le> 1"
proof -
  from perfect_arrays[of XT YT XR YR] assms(1,2) obtain lx px ly py where
    p: "np_linspace 0 (real_of_int (XR - 1)) XT = Inr lx" "np_tile lx YT = Inr px"
       "np_linspace 0 (real_of_int (YR - 1)) YT = Inr ly" "np_repeat ly XT = Inr py"
    and len: "length px = nat (XT * YT)" "length py = nat (XT * YT)"
    by force
  have body: "\<exists>d. 0 \<le> d \<and> bindE (vec_get COM_X i) (\<lambda>cx.
              bindE (vec_get px i) (\<lambda>pcx.
              bindE (vec_get COM_Y i) (\<lambda>cy.
              bindE (vec_get py i) (\<lambda>pcy.
                Inr (q + sqrt ((cx - pcx) * (cx - pcx) + (cy - pcy) * (cy - pcy))
                           / sqrt (real_of_int (XR + YR))))))) = Inr (q + d)"
    if "i \<in> set (py_range (XT * YT))" for i and q :: real
  proof -
    have "0 \<le> i" "i < int (length px)" "i < int (length py)"
      "i < int (length COM_X)" "i < int (length COM_Y)"
      using that by (simp_all add: set_py_range len assms(5,6))
    moreover have "0 \<le> sqrt ((a - b) * (a - b) + (c - d) * (c - d))
        / sqrt (real_of_int (XR + YR))" for a b c d :: real
      using assms(3,4) by (intro divide_nonneg_nonneg) simp_all
    ultimately show ?thesis by (simp only: vec_get_Inr bindE_def sum.case) blast
  qed
  have "\<exists>q'. for_each (py_range (XT * YT)) (\<lambda>i q.
              bindE (vec_get COM_X i) (\<lambda>cx.
              bindE (vec_get px i) (\<lambda>pcx.
              bindE (vec_get COM_Y i) (\<lambda>cy.
              bindE (vec_get py i) (\<lambda>pcy.
                Inr (q + sqrt ((cx - pcx) * (cx - pcx) + (cy - pcy) * (cy - pcy))
                           / sqrt (real_of_int (XR + YR)))))))) 0 = Inr q' \<and> 0 \<le> q'"
    by (rule for_each_grows) (rule body)
  then obtain q' where q': "for_each (py_range (XT * YT)) (\<lambda>i q.
              bindE (vec_get COM_X i) (\<lambda>cx.
              bindE (vec_get px i) (\<lambda>pcx.
              bindE (vec_get COM_Y i) (\<lambda>cy.
              bindE (vec_get py i) (\<lambda>pcy.
                Inr (q + sqrt ((cx - pcx) * (cx - pcx) + (cy - pcy) * (cy - pcy))
                           / sqrt (real_of_int (XR + YR)))))))) 0 = Inr q'" "0 \<le> q'"
    by blast
  have xy: "1 \<le> XR + YR" using assms(3,4) by simp
  have "0 < XT * YT" using assms(1,2) by simp
  then have "0 < real_of_int (XT * YT)" by (simp only: of_int_0_less_iff)
  then have "0 \<le> q' / real_of_int (XT * YT)"
    using q'(2) by (intro divide_nonneg_nonneg) simp_all
  then show ?thesis
    unfolding quality_unfold[OF p assms(1,2) xy] q'(1) by (simp add: bindE_def)
qed

theorem quality_at_most_one_witness:
  "(1::int) \<le> 2 \<and> (1::int) \<le> 1 \<and> (1::int) \<le> 3
   \<and> length [5, 5 :: real] = nat (2 * 1) \<and> length [7, -7 :: real] = nat (2 * 1)
   \<and> (\<exists>q. quality 2 1 3 2 [5, 5] [7, -7] = Inr q \<and> q \<le> 1)"
proof -
  have d: "(1::int) \<le> 2" "(1::int) \<le> 1" "(1::int) \<le> 3" by simp_all
  have l: "length [5, 5 :: real] = nat (2 * 1)" "length [7, -7 :: real] = nat (2 * 1)"
    by simp_all
  show ?thesis
    using d l quality_at_most_one[OF d(1) d(2) d(3) d(1) l] by simp
qed

end
